theory Spec2Isabelle
  imports Main "HOL-Library.Word"
begin

unbundle bit_operations_syntax

section \<open>The mtab lock of libmount (lock.c)\<close>

text \<open>
  The file embeds \<^verbatim>\<open>mnt_new_lock\<close>, \<^verbatim>\<open>mnt_free_lock\<close>, the two path accessors,
  \<^verbatim>\<open>mnt_wait_lock\<close>, \<^verbatim>\<open>mnt_unlock_file\<close> and \<^verbatim>\<open>mnt_lock_file\<close>. The functions
  only call the operating system, so the first part models the system calls they use on
  an explicit state, the \<open>world\<close>; the second part is the code itself, one definition
  for each C function.
\<close>

subsection \<open>Error numbers\<close>

text \<open>
  The values of \<^verbatim>\<open><errno.h>\<close> on Linux that the calls below can end with.
  The code compares them (\<^verbatim>\<open>errno == EINTR\<close>), tests their sign and returns
  them negated, so \<open>errno_of\<close> gives each its number.
\<close>

datatype errno =
    EPERM | ENOENT | EINTR | EIO | EBADF | EAGAIN | ENOMEM | EACCES | EEXIST | EXDEV
  | EINVAL | EMFILE | ENOSPC | EROFS | EDEADLK | ENOLCK | ETIMEDOUT

fun errno_of :: "errno \<Rightarrow> int" where
  "errno_of EPERM = 1"
| "errno_of ENOENT = 2"
| "errno_of EINTR = 4"
| "errno_of EIO = 5"
| "errno_of EBADF = 9"
| "errno_of EAGAIN = 11"
| "errno_of ENOMEM = 12"
| "errno_of EACCES = 13"
| "errno_of EEXIST = 17"
| "errno_of EXDEV = 18"
| "errno_of EINVAL = 22"
| "errno_of EMFILE = 24"
| "errno_of ENOSPC = 28"
| "errno_of EROFS = 30"
| "errno_of EDEADLK = 35"
| "errno_of ENOLCK = 37"
| "errno_of ETIMEDOUT = 110"

subsection \<open>The world: files, descriptors, clock and the other processes\<close>

text \<open>
  A directory entry maps a path to the file it names, identified as \<^verbatim>\<open>stat\<close>
  identifies it: by device and inode number. Two paths that map to the same pair are hard
  links of one file.
\<close>

record stat =
  st_dev :: nat
  st_ino :: nat

record inode =
  i_mode :: "32 word"
  i_data :: string

datatype oflag = O_WRONLY | O_CREAT | O_TRUNC

definition S_IRUSR :: "32 word" where "S_IRUSR = 256"
definition S_IWUSR :: "32 word" where "S_IWUSR = 128"

text \<open>
  What another process does to the directory while this one is between or inside two
  calls: create an empty file, link a second name to a file, remove a name.
\<close>

datatype ext_op = Ext_creat string | Ext_link string string | Ext_unlink string

text \<open>
  One \<open>event\<close> stands for everything around one system call of this process: what the
  other processes did just before it, how many seconds the call takes (for the blocking
  lock request: how long until it would be answered), and the error a record-lock
  request ends with (\<open>None\<close>: the lock is granted). The path calls ignore \<open>ev_errno\<close>:
  what refuses them is in the state.
\<close>

record event =
  ev_ext :: "ext_op list"
  ev_tick :: nat
  ev_errno :: "errno option"

datatype call = Open string | Link string string | Unlink string | Stat string

text \<open>
  \<open>refuse\<close> holds the conditions outside the model that make a path call fail whenever
  it is made: permissions, a read-only or full file system, the limit on open files.
  \<open>env\<close> is the script of the events to come; once it is used up nothing else happens
  around a call. \<open>heap_free\<close> counts the blocks \<^verbatim>\<open>malloc\<close> can still give out.
\<close>

record world =
  fs :: "string \<rightharpoonup> stat"
  inodes :: "stat \<rightharpoonup> inode"
  mount :: "string \<Rightarrow> nat"
  next_ino :: nat
  umask :: "32 word"
  fd_table :: "stat option list"
  refuse :: "call \<Rightarrow> errno option"
  pid :: int
  heap_free :: nat
  clock :: int
  alarm_at :: "int option"
  env :: "event list"

definition idle :: event where
  "idle = \<lparr>ev_ext = [], ev_tick = 0, ev_errno = None\<rparr>"

definition new_file :: "string \<Rightarrow> 32 word \<Rightarrow> world \<Rightarrow> stat \<times> world" where
  "new_file path mode w =
     (let i = \<lparr>st_dev = mount w path, st_ino = next_ino w\<rparr>
      in (i, w\<lparr>fs := (fs w)(path \<mapsto> i),
                inodes := (inodes w)(i \<mapsto> \<lparr>i_mode = mode AND NOT (umask w), i_data = []\<rparr>),
                next_ino := Suc (next_ino w)\<rparr>))"

fun ext_apply :: "world \<Rightarrow> ext_op \<Rightarrow> world" where
  "ext_apply w (Ext_creat p) =
     (case fs w p of None \<Rightarrow> snd (new_file p (S_IRUSR OR S_IWUSR) w) | Some _ \<Rightarrow> w)"
| "ext_apply w (Ext_link p q) =
     (case fs w p of
        None \<Rightarrow> w
      | Some i \<Rightarrow> (case fs w q of None \<Rightarrow> w\<lparr>fs := (fs w)(q \<mapsto> i)\<rparr> | Some _ \<Rightarrow> w))"
| "ext_apply w (Ext_unlink p) = w\<lparr>fs := (fs w)(p := None)\<rparr>"

definition env_next :: "world \<Rightarrow> event \<times> world" where
  "env_next w =
     (case env w of
        [] \<Rightarrow> (idle, w)
      | e # es \<Rightarrow> (e, foldl ext_apply (w\<lparr>env := es\<rparr>) (ev_ext e)))"

definition pass_time :: "nat \<Rightarrow> world \<Rightarrow> world" where
  "pass_time n w = w\<lparr>clock := clock w + int n\<rparr>"

definition enter :: "world \<Rightarrow> event \<times> world" where
  "enter w = (case env_next w of (e, w1) \<Rightarrow> (e, pass_time (ev_tick e) w1))"

subsection \<open>System calls\<close>

text \<open>A new descriptor is the lowest number that is not open.\<close>

fun fd_alloc :: "stat option list \<Rightarrow> stat \<Rightarrow> nat \<times> stat option list" where
  "fd_alloc [] i = (0, [Some i])"
| "fd_alloc (None # t) i = (0, Some i # t)"
| "fd_alloc (Some j # t) i = (case fd_alloc t i of (n, t') \<Rightarrow> (Suc n, Some j # t'))"

definition fd_open :: "world \<Rightarrow> int \<Rightarrow> bool" where
  "fd_open w fd \<longleftrightarrow> 0 \<le> fd \<and> nat fd < length (fd_table w) \<and> fd_table w ! nat fd \<noteq> None"

definition open_fd :: "stat \<Rightarrow> world \<Rightarrow> (errno + int) \<times> world" where
  "open_fd i w = (case fd_alloc (fd_table w) i of (n, t) \<Rightarrow> (Inr (int n), w\<lparr>fd_table := t\<rparr>))"

definition truncate_file :: "stat \<Rightarrow> world \<Rightarrow> world" where
  "truncate_file i w =
     (case inodes w i of
        None \<Rightarrow> w
      | Some f \<Rightarrow> w\<lparr>inodes := (inodes w)(i \<mapsto> f\<lparr>i_data := []\<rparr>)\<rparr>)"

definition sys_open :: "string \<Rightarrow> oflag set \<Rightarrow> 32 word \<Rightarrow> world \<Rightarrow> (errno + int) \<times> world" where
  "sys_open path oflags mode w0 =
     (case enter w0 of (e, w) \<Rightarrow>
        (case refuse w (Open path) of
           Some err \<Rightarrow> (Inl err, w)
         | None \<Rightarrow>
            (case fs w path of
               None \<Rightarrow>
                 if O_CREAT \<in> oflags
                 then (case new_file path mode w of (i, w1) \<Rightarrow> open_fd i w1)
                 else (Inl ENOENT, w)
             | Some i \<Rightarrow>
                 open_fd i (if O_TRUNC \<in> oflags then truncate_file i w else w))))"

definition sys_close :: "int \<Rightarrow> world \<Rightarrow> (errno + unit) \<times> world" where
  "sys_close fd w0 =
     (case enter w0 of (e, w) \<Rightarrow>
        if fd_open w fd
        then (Inr (), w\<lparr>fd_table := (fd_table w)[nat fd := None]\<rparr>)
        else (Inl EBADF, w))"

definition sys_link :: "string \<Rightarrow> string \<Rightarrow> world \<Rightarrow> (errno + unit) \<times> world" where
  "sys_link oldpath newpath w0 =
     (case enter w0 of (e, w) \<Rightarrow>
        (case refuse w (Link oldpath newpath) of
           Some err \<Rightarrow> (Inl err, w)
         | None \<Rightarrow>
            (case fs w oldpath of
               None \<Rightarrow> (Inl ENOENT, w)
             | Some i \<Rightarrow>
                 if fs w newpath \<noteq> None then (Inl EEXIST, w)
                 else if st_dev i \<noteq> mount w newpath then (Inl EXDEV, w)
                 else (Inr (), w\<lparr>fs := (fs w)(newpath \<mapsto> i)\<rparr>))))"

definition sys_unlink :: "string \<Rightarrow> world \<Rightarrow> (errno + unit) \<times> world" where
  "sys_unlink path w0 =
     (case enter w0 of (e, w) \<Rightarrow>
        (case refuse w (Unlink path) of
           Some err \<Rightarrow> (Inl err, w)
         | None \<Rightarrow>
            (case fs w path of
               None \<Rightarrow> (Inl ENOENT, w)
             | Some i \<Rightarrow> (Inr (), w\<lparr>fs := (fs w)(path := None)\<rparr>))))"

definition sys_stat :: "string \<Rightarrow> world \<Rightarrow> (errno + stat) \<times> world" where
  "sys_stat path w0 =
     (case enter w0 of (e, w) \<Rightarrow>
        (case refuse w (Stat path) of
           Some err \<Rightarrow> (Inl err, w)
         | None \<Rightarrow>
            (case fs w path of
               None \<Rightarrow> (Inl ENOENT, w)
             | Some i \<Rightarrow> (Inr i, w))))"

text \<open>
  \<^verbatim>\<open>gettimeofday\<close> reads the clock, of which the code uses the seconds only;
  \<^verbatim>\<open>alarm\<close> sets or (with 0) cancels the time at which SIGALRM is due. Neither
  touches a file or blocks, and neither takes an event.
\<close>

definition gettimeofday :: "world \<Rightarrow> int" where
  "gettimeofday w = clock w"

definition sys_alarm :: "nat \<Rightarrow> world \<Rightarrow> world" where
  "sys_alarm seconds w =
     w\<lparr>alarm_at := (if seconds = 0 then None else Some (clock w + int seconds))\<rparr>"

text \<open>
  \<^verbatim>\<open>fcntl(fd, F_SETLK, ...)\<close> asks for the record lock and returns at once.
\<close>

definition fcntl_setlk :: "int \<Rightarrow> world \<Rightarrow> (errno + unit) \<times> world" where
  "fcntl_setlk fd w0 =
     (case enter w0 of (e, w) \<Rightarrow>
        if \<not> fd_open w fd then (Inl EBADF, w)
        else (case ev_errno e of None \<Rightarrow> (Inr (), w) | Some err \<Rightarrow> (Inl err, w)))"

text \<open>
  \<^verbatim>\<open>fcntl(fd, F_SETLKW, ...)\<close> waits for the record lock. The event says after
  how many seconds the request is answered and how: granted, or ended by an error, which
  is \<open>EINTR\<close> when a signal other than the alarm arrives first. When SIGALRM falls due
  before the answer, the handler that \<^verbatim>\<open>mnt_wait_lock\<close> installed (with no
  \<^verbatim>\<open>SA_RESTART\<close>) runs and the call ends at that moment with \<open>EINTR\<close>.
\<close>

definition fcntl_setlkw :: "int \<Rightarrow> world \<Rightarrow> (errno + unit) \<times> world" where
  "fcntl_setlkw fd w0 =
     (case env_next w0 of (e, w) \<Rightarrow>
        if \<not> fd_open w fd then (Inl EBADF, w)
        else
          (case alarm_at w of
             Some t \<Rightarrow>
               if t \<le> clock w + int (ev_tick e)
               then (Inl EINTR, w\<lparr>clock := max (clock w) t, alarm_at := None\<rparr>)
               else (case ev_errno e of
                       None \<Rightarrow> (Inr (), pass_time (ev_tick e) w)
                     | Some err \<Rightarrow> (Inl err, pass_time (ev_tick e) w))
           | None \<Rightarrow>
               (case ev_errno e of
                  None \<Rightarrow> (Inr (), pass_time (ev_tick e) w)
                | Some err \<Rightarrow> (Inl err, pass_time (ev_tick e) w))))"

text \<open>
  \<^verbatim>\<open>nanosleep\<close> with the requested nanoseconds; the seconds it really takes are the
  event's. The code ignores its result.
\<close>

definition nanosleep :: "nat \<Rightarrow> world \<Rightarrow> world" where
  "nanosleep nsec w = snd (enter w)"

text \<open>
  The allocator: a block is given out while one is left, and \<^verbatim>\<open>free\<close> of a
  pointer that is not NULL gives it back. \<^verbatim>\<open>asprintf\<close> allocates the string it
  has formatted.
\<close>

definition malloc :: "world \<Rightarrow> bool \<times> world" where
  "malloc w =
     (if heap_free w = 0 then (False, w) else (True, w\<lparr>heap_free := heap_free w - 1\<rparr>))"

definition free :: "'a option \<Rightarrow> world \<Rightarrow> world" where
  "free p w = (case p of None \<Rightarrow> w | Some _ \<Rightarrow> w\<lparr>heap_free := Suc (heap_free w)\<rparr>)"

definition asprintf :: "string \<Rightarrow> world \<Rightarrow> string option \<times> world" where
  "asprintf s w = (case malloc w of (False, w1) \<Rightarrow> (None, w1) | (True, w1) \<Rightarrow> (Some s, w1))"

definition getpid :: "world \<Rightarrow> int" where
  "getpid w = pid w"

text \<open>The conversion \<^verbatim>\<open>%d\<close> of \<^verbatim>\<open>printf\<close>.\<close>

fun show_nat :: "nat \<Rightarrow> string" where
  "show_nat n =
     (if n < 10 then [''0123456789'' ! n]
      else show_nat (n div 10) @ [''0123456789'' ! (n mod 10)])"

declare show_nat.simps [simp del]

definition show_int :: "int \<Rightarrow> string" where
  "show_int i = (if i < 0 then CHR ''-'' # show_nat (nat (- i)) else show_nat (nat i))"


section \<open>The code\<close>

subsection \<open>The lock handler\<close>

text \<open>
  \<^verbatim>\<open>struct _mnt_lock\<close>. A \<^verbatim>\<open>char *\<close> that may be NULL is a \<open>string option\<close>, a
  \<^verbatim>\<open>mnt_lock *\<close> that may be NULL is a \<open>mnt_lock option\<close>; a C string is the list of
  its characters before the terminating NUL. The functions that write through the
  pointer return the handler as they leave it.
\<close>

record mnt_lock =
  lockfile :: "string option"
  linkfile :: "string option"
  lockfile_fd :: int
  locked :: int

definition MOUNTLOCK_MAXTIME :: int where "MOUNTLOCK_MAXTIME = 30"
definition MOUNTLOCK_WAITTIME :: nat where "MOUNTLOCK_WAITTIME = 5000"

subsection \<open>mnt_new_lock, mnt_free_lock and the accessors\<close>

text \<open>
  The three allocations of \<^verbatim>\<open>mnt_new_lock\<close> in the order of the source; at the label
  \<^verbatim>\<open>err\<close> what has been allocated is freed. \<^verbatim>\<open>calloc\<close> zeroes the structure, which
  leaves \<open>locked\<close> at 0.
\<close>

definition mnt_new_lock :: "string option \<Rightarrow> int \<Rightarrow> world \<Rightarrow> mnt_lock option \<times> world" where
  "mnt_new_lock datafile id' w =
     (case datafile of
        None \<Rightarrow> (None, w)
      | Some df \<Rightarrow>
         (case asprintf (df @ ''~'') w of
            (None, w1) \<Rightarrow> (None, w1)
          | (Some lo, w1) \<Rightarrow>
             (case asprintf (df @ ''~.'' @ show_int (if id' \<noteq> 0 then id' else getpid w1)) w1 of
                (None, w2) \<Rightarrow> (None, free (Some lo) w2)
              | (Some ln, w2) \<Rightarrow>
                 (case malloc w2 of
                    (False, w3) \<Rightarrow> (None, free (Some ln) (free (Some lo) w3))
                  | (True, w3) \<Rightarrow>
                     (Some \<lparr>lockfile = Some lo, linkfile = Some ln,
                            lockfile_fd = - 1, locked = 0\<rparr>, w3)))))"

definition mnt_free_lock :: "mnt_lock option \<Rightarrow> world \<Rightarrow> world" where
  "mnt_free_lock mlp w =
     (case mlp of
        None \<Rightarrow> w
      | Some ml \<Rightarrow> free (Some ml) (free (linkfile ml) (free (lockfile ml) w)))"

definition mnt_lock_get_lockfile :: "mnt_lock option \<Rightarrow> string option" where
  "mnt_lock_get_lockfile mlp = (case mlp of Some ml \<Rightarrow> lockfile ml | None \<Rightarrow> None)"

definition mnt_lock_get_linkfile :: "mnt_lock option \<Rightarrow> string option" where
  "mnt_lock_get_linkfile mlp = (case mlp of Some ml \<Rightarrow> linkfile ml | None \<Rightarrow> None)"

subsection \<open>mnt_wait_lock\<close>

text \<open>
  Returns 0 on success, 1 on timeout and the negated error number on error, as the
  source's comment says. The two \<^verbatim>\<open>sigaction\<close> calls, which install the empty
  handler and put the old one back, are what makes the alarm end the \<^verbatim>\<open>fcntl\<close> with
  \<open>EINTR\<close>; that is part of \<open>fcntl_setlkw\<close>. The argument of \<^verbatim>\<open>alarm\<close> is an
  \<^verbatim>\<open>unsigned int\<close>.
\<close>

definition mnt_wait_lock :: "mnt_lock \<Rightarrow> int \<Rightarrow> world \<Rightarrow> int \<times> world" where
  "mnt_wait_lock ml maxtime w =
     (let now = gettimeofday w in
      if now \<ge> maxtime then (1, w)
      else
        (let w1 = sys_alarm (nat ((maxtime - now) mod 2 ^ 32)) w in
         case fcntl_setlkw (lockfile_fd ml) w1 of
           (r, w2) \<Rightarrow>
             (let ret = (case r of
                           Inr _ \<Rightarrow> 0
                         | Inl e \<Rightarrow> if e = EINTR then 1 else - errno_of e)
              in (ret, sys_alarm 0 w2))))"

subsection \<open>mnt_unlock_file\<close>

text \<open>
  The first block is the check of the source's comment, "We own the lock when linkfile
  == lockfile": the second \<^verbatim>\<open>stat\<close> is made only when the first succeeded, as
  \<^verbatim>\<open>&&\<close> evaluates. The results of \<^verbatim>\<open>unlink\<close> and \<^verbatim>\<open>close\<close> are ignored.
\<close>

definition mnt_unlock_file :: "mnt_lock option \<Rightarrow> world \<Rightarrow> mnt_lock option \<times> world" where
  "mnt_unlock_file mlp w =
     (case mlp of
        None \<Rightarrow> (None, w)
      | Some ml \<Rightarrow>
         (case
            (if locked ml = 0 \<and> lockfile ml \<noteq> None \<and> linkfile ml \<noteq> None
             then
               (case sys_stat (the (lockfile ml)) w of
                  (Inl _, wa) \<Rightarrow> (ml, wa)
                | (Inr lo, wa) \<Rightarrow>
                   (case sys_stat (the (linkfile ml)) wa of
                      (Inl _, wb) \<Rightarrow> (ml, wb)
                    | (Inr li, wb) \<Rightarrow>
                       (if st_dev lo = st_dev li \<and> st_ino lo = st_ino li
                        then ml\<lparr>locked := 1\<rparr> else ml, wb)))
             else (ml, w))
          of (ml1, w1) \<Rightarrow>
            (let w2 = (case linkfile ml1 of
                         Some p \<Rightarrow> snd (sys_unlink p w1)
                       | None \<Rightarrow> w1);
                 w3 = (if lockfile_fd ml1 \<ge> 0 then snd (sys_close (lockfile_fd ml1) w2)
                       else w2);
                 w4 = (if locked ml1 = 1 \<and> lockfile ml1 \<noteq> None
                       then snd (sys_unlink (the (lockfile ml1)) w3)
                       else w3)
             in (Some (ml1\<lparr>locked := 0, lockfile_fd := - 1\<rparr>), w4))))"

subsection \<open>mnt_lock_file\<close>

text \<open>
  How one pass through the body of the \<^verbatim>\<open>while\<close> loop ends: at its end or by
  \<^verbatim>\<open>continue\<close> (the condition is tested again), by \<^verbatim>\<open>break\<close>, or by
  \<^verbatim>\<open>goto failed\<close> with the value of \<^verbatim>\<open>rc\<close>, which is -1 unless the error number
  was positive.
\<close>

datatype flow = Again | Break | Failed int

definition lock_iter :: "string \<Rightarrow> string \<Rightarrow> int \<Rightarrow> mnt_lock \<Rightarrow> world \<Rightarrow> flow \<times> mnt_lock \<times> world" where
  "lock_iter lockf linkf maxtime ml w =
     (case sys_link linkf lockf w of
        (j, w1) \<Rightarrow>
          (let ml1 = (if j = Inr () then ml\<lparr>locked := 1\<rparr> else ml) in
           case (case j of Inl e \<Rightarrow> if e \<noteq> EEXIST then Some e else None | Inr _ \<Rightarrow> None) of
             Some e \<Rightarrow> (Failed (if errno_of e > 0 then - errno_of e else - 1), ml1, w1)
           | None \<Rightarrow>
              (case sys_open lockf {O_WRONLY} 0 w1 of
                 (Inl errsv, w2) \<Rightarrow>
                   (let ml2 = ml1\<lparr>lockfile_fd := - 1\<rparr>;
                        now = gettimeofday w2
                    in if errsv = ENOENT \<and> now < maxtime
                       then (Again, ml2\<lparr>locked := 0\<rparr>, w2)
                       else (Failed (if errno_of errsv > 0 then - errno_of errsv else - 1),
                             ml2, w2))
               | (Inr fd, w2) \<Rightarrow>
                   (let ml2 = ml1\<lparr>lockfile_fd := fd\<rparr> in
                    if locked ml2 \<noteq> 0
                    then (Break, ml2, snd (fcntl_setlk (lockfile_fd ml2) w2))
                    else
                      (case mnt_wait_lock ml2 maxtime w2 of
                         (err, w3) \<Rightarrow>
                           if err = 1 then (Failed (- errno_of ETIMEDOUT), ml2, w3)
                           else if err < 0 then (Failed err, ml2, w3)
                           else
                             (let w4 = nanosleep (1000 * MOUNTLOCK_WAITTIME) w3;
                                  w5 = snd (sys_close (lockfile_fd ml2) w4)
                              in (Again, ml2\<lparr>lockfile_fd := - 1\<rparr>, w5)))))))"

text \<open>
  The loop \<^verbatim>\<open>while (ml->locked == 0)\<close>. Nothing in the code bounds the number of
  passes (the clock does, when it advances), so the model counts them: \<open>None\<close> says that
  the loop has not ended within \<open>fuel\<close> passes. It ends with \<open>Inr ()\<close> when it is
  left at the condition or by \<^verbatim>\<open>break\<close>, and with \<open>Inl rc\<close> at \<^verbatim>\<open>goto failed\<close>.
\<close>

fun lock_loop :: "nat \<Rightarrow> string \<Rightarrow> string \<Rightarrow> int \<Rightarrow> mnt_lock \<Rightarrow> world \<Rightarrow> ((int + unit) \<times> mnt_lock \<times> world) option" where
  "lock_loop 0 lockf linkf maxtime ml w =
     (if locked ml = 0 then None else Some (Inr (), ml, w))"
| "lock_loop (Suc fuel) lockf linkf maxtime ml w =
     (if locked ml = 0
      then
        (case lock_iter lockf linkf maxtime ml w of
           (Again, ml', w') \<Rightarrow> lock_loop fuel lockf linkf maxtime ml' w'
         | (Break, ml', w') \<Rightarrow> Some (Inr (), ml', w')
         | (Failed rc, ml', w') \<Rightarrow> Some (Inl rc, ml', w'))
      else Some (Inr (), ml, w))"

text \<open>The label \<^verbatim>\<open>failed\<close>: release, then return \<^verbatim>\<open>rc\<close>.\<close>

definition lock_failed :: "int \<Rightarrow> mnt_lock \<Rightarrow> world \<Rightarrow> int \<times> mnt_lock option \<times> world" where
  "lock_failed rc ml w = (case mnt_unlock_file (Some ml) w of (mlp, w') \<Rightarrow> (rc, mlp, w'))"

text \<open>
  Step 1 of the locking scheme, the \<^verbatim>\<open>open\<close> of the link file and the
  \<^verbatim>\<open>close\<close> that follows it (the lines from \<^verbatim>\<open>i = open(linkfile, ...)\<close> to
  \<^verbatim>\<open>close(i)\<close>).
\<close>

definition create_linkfile :: "string \<Rightarrow> world \<Rightarrow> (errno + unit) \<times> world" where
  "create_linkfile linkf w =
     (case sys_open linkf {O_WRONLY, O_CREAT} (S_IRUSR OR S_IWUSR) w of
        (Inl e, w1) \<Rightarrow> (Inl e, w1)
      | (Inr i, w1) \<Rightarrow> (Inr (), snd (sys_close i w1)))"

definition mnt_lock_file :: "nat \<Rightarrow> mnt_lock option \<Rightarrow> world \<Rightarrow> (int \<times> mnt_lock option \<times> world) option" where
  "mnt_lock_file fuel mlp w =
     (case mlp of
        None \<Rightarrow> Some (- errno_of EINVAL, None, w)
      | Some ml \<Rightarrow>
         if locked ml \<noteq> 0 then Some (0, Some ml, w)
         else
           (case mnt_lock_get_lockfile (Some ml) of
              None \<Rightarrow> Some (- errno_of EINVAL, Some ml, w)
            | Some lockf \<Rightarrow>
               (case mnt_lock_get_linkfile (Some ml) of
                  None \<Rightarrow> Some (- errno_of EINVAL, Some ml, w)
                | Some linkf \<Rightarrow>
                   (case create_linkfile linkf w of
                      (Inl e, w1) \<Rightarrow>
                        Some (lock_failed (if errno_of e > 0 then - errno_of e else - 1) ml w1)
                    | (Inr _, w2) \<Rightarrow>
                       (let maxtime = gettimeofday w2 + MOUNTLOCK_MAXTIME
                        in case lock_loop fuel lockf linkf maxtime ml w2 of
                             None \<Rightarrow> None
                           | Some (Inl rc, ml', w') \<Rightarrow> Some (lock_failed rc ml' w')
                           | Some (Inr _, ml', w') \<Rightarrow>
                               Some (0, Some ml', snd (sys_unlink linkf w')))))))"

section \<open>What the theorems speak of\<close>

text \<open>The file a path names, and the file an open descriptor stands for.\<close>

definition file_at :: "world \<Rightarrow> string \<Rightarrow> inode option" where
  "file_at w p = (case fs w p of None \<Rightarrow> None | Some i \<Rightarrow> inodes w i)"

definition tab_at :: "stat option list \<Rightarrow> nat \<Rightarrow> stat option" where
  "tab_at t n = (if n < length t then t ! n else None)"

definition fd_lookup :: "world \<Rightarrow> nat \<Rightarrow> stat option" where
  "fd_lookup w = tab_at (fd_table w)"

text \<open>Two paths are hard links of one file: what the two \<^verbatim>\<open>stat\<close> calls compare.\<close>

definition same_file :: "world \<Rightarrow> string \<Rightarrow> string \<Rightarrow> bool" where
  "same_file w p q \<longleftrightarrow> fs w p \<noteq> None \<and> fs w p = fs w q"

text \<open>
  No other process touches the directory during the calls to come; time may pass and
  lock requests may fail.
\<close>

definition undisturbed :: "world \<Rightarrow> bool" where
  "undisturbed w \<longleftrightarrow> list_all (\<lambda>e. ev_ext e = []) (env w)"

text \<open>No other process creates the path \<open>p\<close> during the calls to come.\<close>

fun ext_creates :: "string \<Rightarrow> ext_op \<Rightarrow> bool" where
  "ext_creates p (Ext_creat q) = (q = p)"
| "ext_creates p (Ext_link q r) = (r = p)"
| "ext_creates p (Ext_unlink q) = False"

definition never_created :: "string \<Rightarrow> world \<Rightarrow> bool" where
  "never_created p w \<longleftrightarrow> list_all (\<lambda>e. list_all (\<lambda>x. \<not> ext_creates p x) (ev_ext e)) (env w)"

text \<open>The handler as \<^verbatim>\<open>mnt_new_lock\<close> builds it for the data file \<open>df\<close> and the id \<open>n\<close>.\<close>

definition handle_for :: "string \<Rightarrow> int \<Rightarrow> mnt_lock" where
  "handle_for df n =
     \<lparr>lockfile = Some (df @ ''~''), linkfile = Some (df @ ''~.'' @ show_int n),
      lockfile_fd = - 1, locked = 0\<rparr>"

text \<open>
  Where the descriptor of the lock file stands, against the table \<open>L\<close> the attempt
  started with: either the handler holds none and the table is \<open>L\<close>, or it holds the
  one descriptor that has been added to \<open>L\<close>.
\<close>

definition fd_state :: "(nat \<Rightarrow> stat option) \<Rightarrow> mnt_lock \<Rightarrow> world \<Rightarrow> bool" where
  "fd_state L ml w \<longleftrightarrow>
     (lockfile_fd ml = - 1 \<and> fd_lookup w = L) \<or>
     (\<exists>n i. lockfile_fd ml = int n \<and> L n = None \<and> fd_lookup w = L(n := Some i))"

text \<open>Reading a decimal numeral back, to say that \<open>show_nat\<close> loses nothing.\<close>

definition digit_of :: "char \<Rightarrow> nat" where
  "digit_of c = of_char c - 48"

definition read_nat :: "string \<Rightarrow> nat" where
  "read_nat s = foldl (\<lambda>a c. 10 * a + digit_of c) 0 s"

text \<open>
  What \<^verbatim>\<open>mnt_unlock_file\<close> takes the handler for, when nobody interferes: the
  owner of the lock if \<open>locked\<close> is 1, or if it is 0 and the two \<^verbatim>\<open>stat\<close> calls
  succeed and find one file.
\<close>

definition release_owner :: "mnt_lock \<Rightarrow> world \<Rightarrow> bool" where
  "release_owner ml w \<longleftrightarrow>
     locked ml = 1 \<or>
     (locked ml = 0 \<and>
      (case lockfile ml of
         None \<Rightarrow> False
       | Some lo \<Rightarrow>
          (case linkfile ml of
             None \<Rightarrow> False
           | Some li \<Rightarrow>
               refuse w (Stat lo) = None \<and> refuse w (Stat li) = None \<and> same_file w lo li)))"

text \<open>The directory after an \<^verbatim>\<open>unlink\<close> of the path, if there is one.\<close>

definition unlinked :: "world \<Rightarrow> string option \<Rightarrow> (string \<rightharpoonup> stat) \<Rightarrow> (string \<rightharpoonup> stat)" where
  "unlinked w p f =
     (case p of
        None \<Rightarrow> f
      | Some q \<Rightarrow> if refuse w (Unlink q) = None then f(q := None) else f)"

text \<open>
  The two halves of \<^verbatim>\<open>mnt_unlock_file\<close>, named for the proofs: the check of the
  ownership, and the calls that follow it.
\<close>

definition unlock_check :: "mnt_lock \<Rightarrow> world \<Rightarrow> mnt_lock \<times> world" where
  "unlock_check ml w =
     (if locked ml = 0 \<and> lockfile ml \<noteq> None \<and> linkfile ml \<noteq> None
      then
        (case sys_stat (the (lockfile ml)) w of
           (Inl _, wa) \<Rightarrow> (ml, wa)
         | (Inr lo, wa) \<Rightarrow>
            (case sys_stat (the (linkfile ml)) wa of
               (Inl _, wb) \<Rightarrow> (ml, wb)
             | (Inr li, wb) \<Rightarrow>
                (if st_dev lo = st_dev li \<and> st_ino lo = st_ino li
                 then ml\<lparr>locked := 1\<rparr> else ml, wb)))
      else (ml, w))"

definition unlock_calls :: "mnt_lock \<Rightarrow> world \<Rightarrow> world" where
  "unlock_calls ml1 w1 =
     (let w2 = (case linkfile ml1 of
                  Some p \<Rightarrow> snd (sys_unlink p w1)
                | None \<Rightarrow> w1);
          w3 = (if lockfile_fd ml1 \<ge> 0 then snd (sys_close (lockfile_fd ml1) w2)
                else w2)
      in if locked ml1 = 1 \<and> lockfile ml1 \<noteq> None
         then snd (sys_unlink (the (lockfile ml1)) w3)
         else w3)"

text \<open>
  The handler and the state at the head of the loop after \<open>k\<close> passes that have all gone
  round, by \<^verbatim>\<open>continue\<close> or through the end of the body; \<open>None\<close> when the loop has
  been left before.
\<close>

fun passes :: "nat \<Rightarrow> string \<Rightarrow> string \<Rightarrow> int \<Rightarrow> mnt_lock \<Rightarrow> world \<Rightarrow> (mnt_lock \<times> world) option" where
  "passes 0 lockf linkf maxtime ml w = Some (ml, w)"
| "passes (Suc k) lockf linkf maxtime ml w =
     (if locked ml = 0
      then
        (case lock_iter lockf linkf maxtime ml w of
           (Again, ml', w') \<Rightarrow> passes k lockf linkf maxtime ml' w'
         | (Break, ml', w') \<Rightarrow> None
         | (Failed rc, ml', w') \<Rightarrow> None)
      else None)"

text \<open>
  Where \<^verbatim>\<open>mnt_lock_file\<close> arrives at the label \<^verbatim>\<open>failed\<close>: the value of
  \<^verbatim>\<open>rc\<close>, the handler and the state there. That is after step 1 when the \<^verbatim>\<open>open\<close>
  of the link file has failed, and otherwise where the loop has ended by
  \<^verbatim>\<open>goto failed\<close>.
\<close>

definition failed_at :: "nat \<Rightarrow> string \<Rightarrow> string \<Rightarrow> mnt_lock \<Rightarrow> world \<Rightarrow> int \<Rightarrow> mnt_lock \<Rightarrow> world \<Rightarrow> bool" where
  "failed_at fuel lockf linkf ml w rc ml0 w0 \<longleftrightarrow>
     (case create_linkfile linkf w of
        (Inl e, w1) \<Rightarrow> rc = - errno_of e \<and> ml0 = ml \<and> w0 = w1
      | (Inr _, w2) \<Rightarrow>
          lock_loop fuel lockf linkf (gettimeofday w2 + MOUNTLOCK_MAXTIME) ml w2
            = Some (Inl rc, ml0, w0))"

subsection \<open>Example states\<close>

text \<open>
  A system where \<^verbatim>\<open>/etc/mtab\<close> exists, no lock is held and nothing else happens; the
  process has the id 4711 and the usual umask 022.
\<close>

definition mtab_world :: world where
  "mtab_world =
     \<lparr>fs = [''/etc/mtab'' \<mapsto> \<lparr>st_dev = 8, st_ino = 1\<rparr>],
      inodes = [\<lparr>st_dev = 8, st_ino = 1\<rparr> \<mapsto> \<lparr>i_mode = 420, i_data = ''proc /proc proc''\<rparr>],
      mount = (\<lambda>_. 8), next_ino = 2, umask = 18, fd_table = [None, None, None],
      refuse = (\<lambda>_. None), pid = 4711, heap_free = 8, clock = 1000, alarm_at = None,
      env = []\<rparr>"

text \<open>The handler of the process 4711 for \<^verbatim>\<open>/etc/mtab\<close>.\<close>

definition mtab_handle :: mnt_lock where
  "mtab_handle = handle_for ''/etc/mtab'' 4711"

text \<open>
  A stale lock: the lock file exists and belongs to nobody who will release it. The first
  four calls go through at once; the fifth, the wait for the record lock, would be
  answered after 40 seconds.
\<close>

definition stale_world :: world where
  "stale_world =
     mtab_world\<lparr>fs := (fs mtab_world)(''/etc/mtab~'' \<mapsto> \<lparr>st_dev = 8, st_ino = 2\<rparr>),
                inodes := (inodes mtab_world)
                  (\<lparr>st_dev = 8, st_ino = 2\<rparr> \<mapsto> \<lparr>i_mode = 384, i_data = []\<rparr>),
                next_ino := 3,
                env := [idle, idle, idle, idle, idle\<lparr>ev_tick := 40\<rparr>]\<rparr>"

text \<open>
  The stale lock again, seen at the head of the loop: the link file has been created, and
  the events are those of the calls from the \<^verbatim>\<open>link\<close> on.
\<close>

definition contended_world :: "event list \<Rightarrow> world" where
  "contended_world evs =
     stale_world\<lparr>fs := (fs stale_world)(''/etc/mtab~.4711'' \<mapsto> \<lparr>st_dev = 8, st_ino = 3\<rparr>),
                 inodes := (inodes stale_world)
                   (\<lparr>st_dev = 8, st_ino = 3\<rparr> \<mapsto> \<lparr>i_mode = 384, i_data = []\<rparr>),
                 next_ino := 4,
                 env := evs\<rparr>"

text \<open>
  A race at the head of the loop: just before the \<^verbatim>\<open>link\<close> another process creates
  the lock file, and just before the \<^verbatim>\<open>open\<close> it removes it again.
\<close>

definition race_world :: world where
  "race_world =
     mtab_world\<lparr>fs := (fs mtab_world)(''/etc/mtab~.4711'' \<mapsto> \<lparr>st_dev = 8, st_ino = 2\<rparr>),
                inodes := (inodes mtab_world)
                  (\<lparr>st_dev = 8, st_ino = 2\<rparr> \<mapsto> \<lparr>i_mode = 384, i_data = []\<rparr>),
                next_ino := 3,
                env := [idle\<lparr>ev_ext := [Ext_creat ''/etc/mtab~'']\<rparr>,
                        idle\<lparr>ev_ext := [Ext_unlink ''/etc/mtab~'']\<rparr>]\<rparr>"

text \<open>
  The link file has been left behind with something in it, readable by everybody.
\<close>

definition leftover_world :: world where
  "leftover_world =
     mtab_world\<lparr>fs := (fs mtab_world)(''/etc/mtab~.4711'' \<mapsto> \<lparr>st_dev = 8, st_ino = 2\<rparr>),
                inodes := (inodes mtab_world)
                  (\<lparr>st_dev = 8, st_ino = 2\<rparr> \<mapsto> \<lparr>i_mode = 420, i_data = ''left over''\<rparr>),
                next_ino := 3\<rparr>"

text \<open>
  The lock file and the link file of the id 4711 are two names of one file: an owner
  with that id has made the link and not yet removed its link file.
\<close>

definition twin_world :: world where
  "twin_world =
     mtab_world\<lparr>fs := (fs mtab_world)(''/etc/mtab~'' \<mapsto> \<lparr>st_dev = 8, st_ino = 2\<rparr>,
                                        ''/etc/mtab~.4711'' \<mapsto> \<lparr>st_dev = 8, st_ino = 2\<rparr>),
                inodes := (inodes mtab_world)
                  (\<lparr>st_dev = 8, st_ino = 2\<rparr> \<mapsto> \<lparr>i_mode = 384, i_data = []\<rparr>),
                next_ino := 3\<rparr>"

text \<open>
  The quiet system, but between the \<^verbatim>\<open>link\<close> and the \<^verbatim>\<open>open\<close> of the first pass
  the lock file comes and goes: another process creates it just before the \<^verbatim>\<open>link\<close>
  (the third call of \<^verbatim>\<open>mnt_lock_file\<close>) and removes it just before the \<^verbatim>\<open>open\<close>.
  Step 1 leads from here to \<open>race_world\<close>.
\<close>

definition race_start_world :: world where
  "race_start_world =
     mtab_world\<lparr>env := [idle, idle, idle\<lparr>ev_ext := [Ext_creat ''/etc/mtab~'']\<rparr>,
                        idle\<lparr>ev_ext := [Ext_unlink ''/etc/mtab~'']\<rparr>]\<rparr>"

text \<open>The same, but the \<^verbatim>\<open>open\<close> takes 30 seconds, up to the deadline.\<close>

definition late_race_world :: world where
  "late_race_world =
     mtab_world\<lparr>env := [idle, idle, idle\<lparr>ev_ext := [Ext_creat ''/etc/mtab~'']\<rparr>,
                        idle\<lparr>ev_ext := [Ext_unlink ''/etc/mtab~''], ev_tick := 30\<rparr>]\<rparr>"

text \<open>The quiet system, where every \<^verbatim>\<open>open\<close> of the lock file is refused.\<close>

definition denied_world :: world where
  "denied_world =
     mtab_world\<lparr>refuse := (\<lambda>c. if c = Open ''/etc/mtab~'' then Some EACCES else None)\<rparr>"

text \<open>
  The stale lock, and a signal other than the alarm ends the wait for the record lock
  (the fifth call) at once.
\<close>

definition signal_world :: world where
  "signal_world =
     stale_world\<lparr>env := [idle, idle, idle, idle, idle\<lparr>ev_errno := Some EINTR\<rparr>]\<rparr>"

section \<open>Creating a handler\<close>

lemma errno_of_pos: "0 < errno_of e"
  by (cases e) simp_all

text \<open>
  \<^verbatim>\<open>mnt_new_lock\<close> in closed form: with three blocks to allocate it returns the
  handler and the world is the old one with three blocks fewer; with fewer blocks it
  returns NULL and has freed what it took.
\<close>

lemma new_lock_result:
  "mnt_new_lock (Some p) id' w =
     (if 3 \<le> heap_free w
      then (Some (handle_for p (if id' \<noteq> 0 then id' else pid w)), w\<lparr>heap_free := heap_free w - 3\<rparr>)
      else (None, w))"
proof -
  consider "heap_free w = 0" | "heap_free w = 1" | "heap_free w = 2" | "3 \<le> heap_free w"
    by linarith
  then show ?thesis
  proof cases
    case 1
    then show ?thesis by (simp add: mnt_new_lock_def asprintf_def malloc_def)
  next
    case 2
    then show ?thesis by (simp add: mnt_new_lock_def asprintf_def malloc_def free_def getpid_def)
  next
    case 3
    then show ?thesis by (simp add: mnt_new_lock_def asprintf_def malloc_def free_def getpid_def)
  next
    case 4
    then show ?thesis
      by (simp add: mnt_new_lock_def asprintf_def malloc_def free_def getpid_def handle_for_def)
  qed
qed

text \<open>
  Claim C4. For every data file path \<open>p\<close> and every id, the handler that
  \<^verbatim>\<open>mnt_new_lock\<close> returns has the lock file path \<open>p\<close> followed by \<^verbatim>\<open>~\<close> and the
  link file path \<open>p\<close> followed by \<^verbatim>\<open>~.\<close> and the id in decimal, where the id 0
  stands for the process id; both are functions of \<open>p\<close>, the id and the process id
  alone. A handler is returned whenever three blocks can be allocated.
\<close>

theorem new_lock_paths:
  "(\<forall>ml w'. mnt_new_lock (Some p) id' w = (Some ml, w') \<longrightarrow>
      mnt_lock_get_lockfile (Some ml) = Some (p @ ''~'') \<and>
      mnt_lock_get_linkfile (Some ml) = Some (p @ ''~.'' @ show_int (if id' = 0 then getpid w else id')))
   \<and> (3 \<le> heap_free w \<longrightarrow> fst (mnt_new_lock (Some p) id' w) \<noteq> None)"
  by (auto simp: new_lock_result handle_for_def getpid_def
      mnt_lock_get_lockfile_def mnt_lock_get_linkfile_def split: if_splits)

theorem new_lock_paths_witness:
  "fst (mnt_new_lock (Some ''/etc/mtab'') 0 mtab_world) =
     Some \<lparr>lockfile = Some ''/etc/mtab~'', linkfile = Some ''/etc/mtab~.4711'',
           lockfile_fd = - 1, locked = 0\<rparr>
   \<and> mnt_lock_get_linkfile (fst (mnt_new_lock (Some ''/etc/mtab'') 12 mtab_world)) = Some ''/etc/mtab~.12''"
proof -
  have a: "mnt_new_lock (Some ''/etc/mtab'') 0 mtab_world = (Some (handle_for ''/etc/mtab'' 4711), mtab_world\<lparr>heap_free := 5\<rparr>)"
    by (simp add: new_lock_result mtab_world_def)
  have b: "mnt_new_lock (Some ''/etc/mtab'') 12 mtab_world = (Some (handle_for ''/etc/mtab'' 12), mtab_world\<lparr>heap_free := 5\<rparr>)"
    by (simp add: new_lock_result mtab_world_def)
  from new_lock_paths [of "''/etc/mtab''" 0 mtab_world] a
    new_lock_paths [of "''/etc/mtab''" 12 mtab_world] b
  show ?thesis
    by (simp add: handle_for_def show_int_def show_nat.simps getpid_def mtab_world_def mnt_lock_get_linkfile_def)
qed

text \<open>
  Claim C2 says that \<^verbatim>\<open>mnt_new_lock\<close> fails for the empty path. The code tests the
  pointer only (\<^verbatim>\<open>if (!datafile)\<close>): for the empty string it returns a handler with
  the paths \<^verbatim>\<open>~\<close> and \<^verbatim>\<open>~.7\<close>.
\<close>

theorem new_lock_empty_path_accepted:
  "fst (mnt_new_lock (Some '''') 7 mtab_world) =
     Some \<lparr>lockfile = Some ''~'', linkfile = Some ''~.7'', lockfile_fd = - 1, locked = 0\<rparr>"
  by (simp add: new_lock_result handle_for_def mtab_world_def show_int_def show_nat.simps)

text \<open>
  Claim C2, amended. \<^verbatim>\<open>mnt_new_lock\<close> returns NULL for the NULL path, and changes
  nothing. For every path that is not NULL, the empty one too, it returns the handler
  when the three allocations succeed, and the only change of the world is these
  allocations: no file, descriptor, clock or event is touched. When an allocation fails it
  returns NULL and the world is as before.
\<close>

theorem new_lock_fails_on_null_only:
  "mnt_new_lock None id' w = (None, w)
   \<and> (3 \<le> heap_free w \<longrightarrow>
        mnt_new_lock (Some p) id' w =
          (Some (handle_for p (if id' \<noteq> 0 then id' else getpid w)), w\<lparr>heap_free := heap_free w - 3\<rparr>))
   \<and> (heap_free w < 3 \<longrightarrow> mnt_new_lock (Some p) id' w = (None, w))"
  by (simp add: new_lock_result getpid_def) (simp add: mnt_new_lock_def)

theorem new_lock_fails_on_null_only_witness:
  "mnt_new_lock None 7 mtab_world = (None, mtab_world)
   \<and> mnt_new_lock (Some '''') 7 mtab_world =
       (Some \<lparr>lockfile = Some ''~'', linkfile = Some ''~.7'', lockfile_fd = - 1, locked = 0\<rparr>,
        mtab_world\<lparr>heap_free := 5\<rparr>)
   \<and> mnt_new_lock (Some ''/etc/mtab'') 7 (mtab_world\<lparr>heap_free := 2\<rparr>) = (None, mtab_world\<lparr>heap_free := 2\<rparr>)"
  using new_lock_fails_on_null_only [of 7 mtab_world "''''"]
    new_lock_fails_on_null_only [of 7 "mtab_world\<lparr>heap_free := 2\<rparr>" "''/etc/mtab''"]
  by (simp add: handle_for_def show_int_def show_nat.simps mtab_world_def)


section \<open>The NULL handler\<close>

text \<open>
  Claim C10. Every public function accepts the NULL handler: \<^verbatim>\<open>mnt_lock_file\<close>
  returns \<^verbatim>\<open>-EINVAL\<close> and leaves the world alone, \<^verbatim>\<open>mnt_unlock_file\<close> and
  \<^verbatim>\<open>mnt_free_lock\<close> do nothing, and the two accessors return NULL.
\<close>

theorem null_handle_tolerated:
  "mnt_lock_file fuel None w = Some (- errno_of EINVAL, None, w)
   \<and> mnt_unlock_file None w = (None, w)
   \<and> mnt_free_lock None w = w
   \<and> mnt_lock_get_lockfile None = None
   \<and> mnt_lock_get_linkfile None = None"
  by (simp add: mnt_lock_file_def mnt_unlock_file_def mnt_free_lock_def
      mnt_lock_get_lockfile_def mnt_lock_get_linkfile_def)

theorem null_handle_tolerated_witness:
  "mnt_lock_file 3 None mtab_world = Some (- 22, None, mtab_world)
   \<and> mnt_unlock_file None mtab_world = (None, mtab_world)
   \<and> mnt_free_lock None mtab_world = mtab_world"
  using null_handle_tolerated [of 3 mtab_world] by simp

section \<open>The environment and the system calls\<close>

text \<open>The definitions that running the model on a concrete state unfolds.\<close>

lemmas sys_defs = sys_open_def enter_def env_next_def idle_def pass_time_def new_file_def open_fd_def sys_close_def fd_open_def
     gettimeofday_def sys_link_def fcntl_setlk_def fcntl_setlkw_def sys_unlink_def sys_stat_def sys_alarm_def nanosleep_def S_IRUSR_def S_IWUSR_def truncate_file_def
lemmas code_defs = mnt_lock_file_def mnt_lock_get_lockfile_def mnt_lock_get_linkfile_def mnt_unlock_file_def lock_failed_def create_linkfile_def
    MOUNTLOCK_MAXTIME_def MOUNTLOCK_WAITTIME_def lock_iter_def mnt_wait_lock_def

lemmas run_defs = sys_defs code_defs Let_def
lemmas run_congs = let_weak_cong prod.case_cong_weak sum.case_cong_weak
  option.case_cong_weak list.case_cong_weak flow.case_cong_weak

lemma mtab_handle_eq:
  "mtab_handle = \<lparr>lockfile = Some ''/etc/mtab~'', linkfile = Some ''/etc/mtab~.4711'',
                   lockfile_fd = - 1, locked = 0\<rparr>"
  by (simp add: mtab_handle_def handle_for_def show_int_def show_nat.simps)

subsection \<open>What an event changes\<close>

lemma new_file_fields [simp]:
  "refuse (snd (new_file p m w)) = refuse w"
  "fd_table (snd (new_file p m w)) = fd_table w"
  "env (snd (new_file p m w)) = env w"
  "clock (snd (new_file p m w)) = clock w"
  "alarm_at (snd (new_file p m w)) = alarm_at w"
  "umask (snd (new_file p m w)) = umask w"
  "mount (snd (new_file p m w)) = mount w"
  by (simp_all add: new_file_def Let_def)

lemma ext_apply_fields [simp]:
  "refuse (ext_apply w x) = refuse w"
  "fd_table (ext_apply w x) = fd_table w"
  "env (ext_apply w x) = env w"
  "clock (ext_apply w x) = clock w"
  "alarm_at (ext_apply w x) = alarm_at w"
  "umask (ext_apply w x) = umask w"
  "mount (ext_apply w x) = mount w"
  by (cases x; simp split: option.splits)+

lemma foldl_ext_fields [simp]:
  "refuse (foldl ext_apply w xs) = refuse w"
  "fd_table (foldl ext_apply w xs) = fd_table w"
  "env (foldl ext_apply w xs) = env w"
  "clock (foldl ext_apply w xs) = clock w"
  "alarm_at (foldl ext_apply w xs) = alarm_at w"
  "umask (foldl ext_apply w xs) = umask w"
  "mount (foldl ext_apply w xs) = mount w"
  by (induction xs arbitrary: w; simp)+

lemma ext_apply_absent:
  "\<not> ext_creates p x \<Longrightarrow> fs w p = None \<Longrightarrow> fs (ext_apply w x) p = None"
  by (cases x) (auto simp: new_file_def Let_def split: option.splits)

lemma foldl_ext_absent:
  "list_all (\<lambda>x. \<not> ext_creates p x) xs \<Longrightarrow> fs w p = None \<Longrightarrow>
   fs (foldl ext_apply w xs) p = None"
  by (induction xs arbitrary: w) (simp_all add: ext_apply_absent)

text \<open>
  What every call leaves alone when it takes its event: the refusals, the descriptors,
  the alarm. The script loses its head.
\<close>

lemma env_next_fields [simp]:
  "refuse (snd (env_next w)) = refuse w"
  "fd_table (snd (env_next w)) = fd_table w"
  "env (snd (env_next w)) = tl (env w)"
  "clock (snd (env_next w)) = clock w"
  "alarm_at (snd (env_next w)) = alarm_at w"
  "umask (snd (env_next w)) = umask w"
  "mount (snd (env_next w)) = mount w"
  by (simp_all add: env_next_def split: list.splits)

lemma enter_fields [simp]:
  "refuse (snd (enter w)) = refuse w"
  "fd_table (snd (enter w)) = fd_table w"
  "env (snd (enter w)) = tl (env w)"
  "alarm_at (snd (enter w)) = alarm_at w"
  "umask (snd (enter w)) = umask w"
  "mount (snd (enter w)) = mount w"
  by (simp_all add: enter_def pass_time_def split_beta)

lemma env_next_absent:
  "never_created p w \<Longrightarrow> fs w p = None \<Longrightarrow> fs (snd (env_next w)) p = None"
  by (auto simp: env_next_def never_created_def foldl_ext_absent split: list.splits)

lemma enter_absent:
  "never_created p w \<Longrightarrow> fs w p = None \<Longrightarrow> fs (snd (enter w)) p = None"
  by (simp add: enter_def pass_time_def split_beta env_next_absent)

lemma env_next_undisturbed [simp]:
  assumes "undisturbed w"
  shows "fs (snd (env_next w)) = fs w" "inodes (snd (env_next w)) = inodes w"
    "next_ino (snd (env_next w)) = next_ino w"
  using assms by (auto simp: env_next_def undisturbed_def split: list.splits)

lemma enter_undisturbed [simp]:
  assumes "undisturbed w"
  shows "fs (snd (enter w)) = fs w" "inodes (snd (enter w)) = inodes w"
    "next_ino (snd (enter w)) = next_ino w"
  using assms by (simp_all add: enter_def pass_time_def split_beta)

text \<open>A property of all events to come holds of those that are left after a call.\<close>

lemma list_all_tl [simp]: "list_all Q xs \<Longrightarrow> list_all Q (tl xs)"
  by (cases xs) simp_all

subsection \<open>The descriptor table\<close>

lemma tab_at_Nil [simp]: "tab_at [] n = None"
  by (simp add: tab_at_def)

lemma tab_at_Cons: "tab_at (x # t) n = (case n of 0 \<Rightarrow> x | Suc m \<Rightarrow> tab_at t m)"
  by (simp add: tab_at_def split: nat.splits)

lemma fd_alloc_at:
  "fd_alloc t i = (n, t') \<Longrightarrow>
   tab_at t n = None \<and> (\<forall>k. tab_at t' k = (if k = n then Some i else tab_at t k))"
proof (induction t i arbitrary: n t' rule: fd_alloc.induct)
  case (1 i)
  then show ?case by (auto simp: tab_at_Cons split: nat.splits)
next
  case (2 t i)
  then show ?case by (auto simp: tab_at_Cons split: nat.splits)
next
  case (3 j t i)
  obtain m u where mu: "fd_alloc t i = (m, u)" by (cases "fd_alloc t i")
  with 3 have "tab_at t m = None \<and> (\<forall>k. tab_at u k = (if k = m then Some i else tab_at t k))"
    by simp
  moreover from 3(2) mu have "n = Suc m" "t' = Some j # u" by simp_all
  ultimately show ?case by (auto simp: tab_at_Cons split: nat.splits)
qed

lemma tab_at_close: "tab_at (t[n := None]) = (tab_at t)(n := None)"
  by (auto simp: tab_at_def fun_eq_iff)

lemma fd_open_iff: "fd_open w fd \<longleftrightarrow> 0 \<le> fd \<and> fd_lookup w (nat fd) \<noteq> None"
  by (auto simp: fd_open_def fd_lookup_def tab_at_def)

lemma open_fd_fields [simp]:
  "refuse (snd (open_fd i w)) = refuse w"
  "env (snd (open_fd i w)) = env w"
  "fs (snd (open_fd i w)) = fs w"
  "inodes (snd (open_fd i w)) = inodes w"
  "clock (snd (open_fd i w)) = clock w"
  "alarm_at (snd (open_fd i w)) = alarm_at w"
  by (simp_all add: open_fd_def split_beta)

lemma open_fd_at:
  "\<exists>n. fst (open_fd i w) = Inr (int n) \<and> fd_lookup w n = None \<and>
       fd_lookup (snd (open_fd i w)) = (fd_lookup w)(n := Some i)"
proof -
  obtain n t where nt: "fd_alloc (fd_table w) i = (n, t)" by (cases "fd_alloc (fd_table w) i")
  from fd_alloc_at [OF nt] nt show ?thesis
    by (auto simp: open_fd_def fd_lookup_def fun_eq_iff)
qed

lemma truncate_file_fields [simp]:
  "refuse (truncate_file i w) = refuse w"
  "env (truncate_file i w) = env w"
  "fs (truncate_file i w) = fs w"
  "fd_table (truncate_file i w) = fd_table w"
  "clock (truncate_file i w) = clock w"
  "alarm_at (truncate_file i w) = alarm_at w"
  by (simp_all add: truncate_file_def split: option.splits)

subsection \<open>The system calls, one by one\<close>

lemma sys_open_fields [simp]:
  "refuse (snd (sys_open p fl m w)) = refuse w"
  "env (snd (sys_open p fl m w)) = tl (env w)"
  "alarm_at (snd (sys_open p fl m w)) = alarm_at w"
  by (simp_all add: sys_open_def split_beta split: option.splits)

lemma sys_open_fd:
  "(\<exists>e. fst (sys_open p fl m w) = Inl e \<and> fd_lookup (snd (sys_open p fl m w)) = fd_lookup w)
   \<or> (\<exists>n i. fst (sys_open p fl m w) = Inr (int n) \<and> fd_lookup w n = None \<and>
        fd_lookup (snd (sys_open p fl m w)) = (fd_lookup w)(n := Some i))"
proof -
  have lk: "fd_lookup (snd (enter w)) = fd_lookup w"
    "\<And>i. fd_lookup (truncate_file i (snd (enter w))) = fd_lookup w"
    "fd_lookup (snd (new_file p m (snd (enter w)))) = fd_lookup w"
    by (simp_all add: fd_lookup_def)
  show ?thesis
    using open_fd_at [of _ "snd (enter w)"] open_fd_at [of _ "truncate_file _ (snd (enter w))"]
      open_fd_at [of _ "snd (new_file p m (snd (enter w)))"]
    by (simp add: sys_open_def split_beta lk split: option.splits) blast
qed

lemma sys_close_fields [simp]:
  "refuse (snd (sys_close fd w)) = refuse w"
  "env (snd (sys_close fd w)) = tl (env w)"
  "alarm_at (snd (sys_close fd w)) = alarm_at w"
  by (simp_all add: sys_close_def split_beta)

lemma sys_close_lookup:
  "fd_lookup (snd (sys_close fd w)) =
     (if 0 \<le> fd then (fd_lookup w)(nat fd := None) else fd_lookup w)"
  by (auto simp: sys_close_def split_beta fd_open_iff fd_lookup_def tab_at_close fun_eq_iff)

lemma sys_close_absent:
  "never_created p w \<Longrightarrow> fs w p = None \<Longrightarrow> fs (snd (sys_close fd w)) p = None"
  by (simp add: sys_close_def split_beta enter_absent)

lemma sys_close_undisturbed [simp]:
  "undisturbed w \<Longrightarrow> fs (snd (sys_close fd w)) = fs w"
  "undisturbed w \<Longrightarrow> inodes (snd (sys_close fd w)) = inodes w"
  by (simp_all add: sys_close_def split_beta)

lemma sys_link_fields [simp]:
  "refuse (snd (sys_link p q w)) = refuse w"
  "env (snd (sys_link p q w)) = tl (env w)"
  "fd_table (snd (sys_link p q w)) = fd_table w"
  "alarm_at (snd (sys_link p q w)) = alarm_at w"
  by (simp_all add: sys_link_def split_beta split: option.splits)

lemma sys_unlink_fields [simp]:
  "refuse (snd (sys_unlink p w)) = refuse w"
  "env (snd (sys_unlink p w)) = tl (env w)"
  "fd_table (snd (sys_unlink p w)) = fd_table w"
  "alarm_at (snd (sys_unlink p w)) = alarm_at w"
  by (simp_all add: sys_unlink_def split_beta split: option.splits)

lemma sys_unlink_absent:
  "never_created p w \<Longrightarrow> fs w p = None \<Longrightarrow> fs (snd (sys_unlink q w)) p = None"
  by (simp add: sys_unlink_def split_beta enter_absent split: option.splits)

lemma sys_unlink_removes:
  "never_created p w \<Longrightarrow> refuse w (Unlink p) = None \<Longrightarrow> fs (snd (sys_unlink p w)) p = None"
  by (simp add: sys_unlink_def split_beta split: option.splits)

lemma sys_unlink_undisturbed [simp]:
  "undisturbed w \<Longrightarrow> fs (snd (sys_unlink p w)) =
     (if refuse w (Unlink p) = None then (fs w)(p := None) else fs w)"
  "undisturbed w \<Longrightarrow> inodes (snd (sys_unlink p w)) = inodes w"
  by (auto simp: sys_unlink_def split_beta fun_eq_iff split: option.splits)

lemma sys_stat_fields [simp]:
  "refuse (snd (sys_stat p w)) = refuse w"
  "env (snd (sys_stat p w)) = tl (env w)"
  "fd_table (snd (sys_stat p w)) = fd_table w"
  "alarm_at (snd (sys_stat p w)) = alarm_at w"
  by (simp_all add: sys_stat_def split_beta split: option.splits)

lemma sys_stat_absent:
  "never_created p w \<Longrightarrow> fs w p = None \<Longrightarrow> fs (snd (sys_stat q w)) p = None"
  by (simp add: sys_stat_def split_beta enter_absent split: option.splits)

lemma sys_stat_undisturbed [simp]:
  "undisturbed w \<Longrightarrow> fs (snd (sys_stat p w)) = fs w"
  "undisturbed w \<Longrightarrow> inodes (snd (sys_stat p w)) = inodes w"
  "undisturbed w \<Longrightarrow> fst (sys_stat p w) =
     (case refuse w (Stat p) of
        Some err \<Rightarrow> Inl err
      | None \<Rightarrow> (case fs w p of None \<Rightarrow> Inl ENOENT | Some i \<Rightarrow> Inr i))"
  by (simp_all add: sys_stat_def split_beta split: option.splits)

lemma fcntl_setlk_fields [simp]:
  "refuse (snd (fcntl_setlk fd w)) = refuse w"
  "env (snd (fcntl_setlk fd w)) = tl (env w)"
  "fd_table (snd (fcntl_setlk fd w)) = fd_table w"
  by (simp_all add: fcntl_setlk_def split_beta split: option.splits)

lemma fcntl_setlkw_fields [simp]:
  "refuse (snd (fcntl_setlkw fd w)) = refuse w"
  "env (snd (fcntl_setlkw fd w)) = tl (env w)"
  "fd_table (snd (fcntl_setlkw fd w)) = fd_table w"
  by (simp_all add: fcntl_setlkw_def split_beta pass_time_def split: option.splits)

lemma nanosleep_fields [simp]:
  "refuse (nanosleep n w) = refuse w"
  "env (nanosleep n w) = tl (env w)"
  "fd_table (nanosleep n w) = fd_table w"
  by (simp_all add: nanosleep_def)

lemma sys_alarm_fields [simp]:
  "refuse (sys_alarm n w) = refuse w"
  "env (sys_alarm n w) = env w"
  "fd_table (sys_alarm n w) = fd_table w"
  "fs (sys_alarm n w) = fs w"
  "inodes (sys_alarm n w) = inodes w"
  "clock (sys_alarm n w) = clock w"
  by (simp_all add: sys_alarm_def)

section \<open>Acquire and release\<close>

subsection \<open>The loop\<close>

lemma mnt_wait_lock_fields [simp]:
  "refuse (snd (mnt_wait_lock ml mt w)) = refuse w"
  "fd_table (snd (mnt_wait_lock ml mt w)) = fd_table w"
  by (simp_all add: mnt_wait_lock_def Let_def split_beta)

lemma mnt_wait_lock_env [simp]:
  "list_all Q (env w) \<Longrightarrow> list_all Q (env (snd (mnt_wait_lock ml mt w)))"
  by (simp add: mnt_wait_lock_def Let_def split_beta)

lemma lock_iter_paths [simp]:
  "lockfile (fst (snd (lock_iter lo li mt ml w))) = lockfile ml"
  "linkfile (fst (snd (lock_iter lo li mt ml w))) = linkfile ml"
  by (simp_all add: lock_iter_def Let_def split_beta split: sum.splits option.splits)

lemma lock_iter_refuse [simp]:
  "refuse (snd (snd (lock_iter lo li mt ml w))) = refuse w"
  by (simp add: lock_iter_def Let_def split_beta split: sum.splits option.splits)

lemma lock_iter_env [simp]:
  "list_all Q (env w) \<Longrightarrow> list_all Q (env (snd (snd (lock_iter lo li mt ml w))))"
  by (simp add: lock_iter_def Let_def split_beta split: sum.splits option.splits)

lemma lock_iter_fd:
  assumes "lockfile_fd ml = - 1"
  shows "case lock_iter lo li mt ml w of
           (Again, ml', w') \<Rightarrow> lockfile_fd ml' = - 1 \<and> locked ml' = 0 \<and> fd_lookup w' = fd_lookup w
         | (Break, ml', w') \<Rightarrow> locked ml' \<noteq> 0
         | (Failed rc, ml', w') \<Rightarrow> rc < 0 \<and> fd_state (fd_lookup w) ml' w'"
proof -
  define w1 where "w1 = snd (sys_link li lo w)"
  have l1: "fd_lookup w1 = fd_lookup w" by (simp add: w1_def fd_lookup_def)
  have lk: "\<And>v fd. fd_lookup (snd (fcntl_setlk fd v)) = fd_lookup v"
    "\<And>v m t. fd_lookup (snd (mnt_wait_lock m t v)) = fd_lookup v"
    "\<And>v n. fd_lookup (nanosleep n v) = fd_lookup v"
    by (simp_all add: fd_lookup_def)
  from sys_open_fd [of lo "{O_WRONLY}" 0 w1]
  show ?thesis
  proof (elim disjE exE conjE)
    fix e
    assume "fst (sys_open lo {O_WRONLY} 0 w1) = Inl e"
      and "fd_lookup (snd (sys_open lo {O_WRONLY} 0 w1)) = fd_lookup w1"
    then show ?thesis
      using assms l1
      by (auto simp: lock_iter_def Let_def split_beta w1_def [symmetric] fd_state_def
          errno_of_pos split: sum.splits option.splits flow.splits)
  next
    fix n i
    assume "fst (sys_open lo {O_WRONLY} 0 w1) = Inr (int n)" "fd_lookup w1 n = None"
      and "fd_lookup (snd (sys_open lo {O_WRONLY} 0 w1)) = (fd_lookup w1)(n := Some i)"
    then show ?thesis
      using assms l1
      by (auto simp: lock_iter_def Let_def split_beta w1_def [symmetric] fd_state_def
          lk sys_close_lookup errno_of_pos split: sum.splits option.splits flow.splits)
  qed
qed

lemma lock_iter_rc: "fst (lock_iter lo li mt ml w) = Failed rc \<Longrightarrow> rc < 0"
  by (auto simp: lock_iter_def Let_def split_beta errno_of_pos
      split: sum.splits option.splits if_splits)

lemma lock_loop_keeps:
  assumes "lock_loop n lo li mt ml w = Some (r, ml', w')"
  shows "lockfile ml' = lockfile ml \<and> linkfile ml' = linkfile ml \<and> refuse w' = refuse w
         \<and> (list_all Q (env w) \<longrightarrow> list_all Q (env w'))"
  using assms
proof (induction n arbitrary: ml w)
  case 0
  then show ?case by (simp split: if_splits)
next
  case (Suc n)
  obtain fl ml1 w1 where it: "lock_iter lo li mt ml w = (fl, ml1, w1)"
    by (cases "lock_iter lo li mt ml w")
  then have k: "lockfile ml1 = lockfile ml" "linkfile ml1 = linkfile ml" "refuse w1 = refuse w"
    "list_all Q (env w) \<longrightarrow> list_all Q (env w1)"
    using lock_iter_paths [where lo = lo and li = li and mt = mt and ml = ml and w = w]
      lock_iter_refuse [where lo = lo and li = li and mt = mt and ml = ml and w = w]
      lock_iter_env [where Q = Q and lo = lo and li = li and mt = mt and ml = ml and w = w]
    by simp_all
  show ?case
  proof (cases "locked ml = 0")
    case False
    with Suc.prems show ?thesis by simp
  next
    case True
    show ?thesis
    proof (cases fl)
      case Again
      with Suc.prems True it have "lock_loop n lo li mt ml1 w1 = Some (r, ml', w')" by simp
      from Suc.IH [OF this] k show ?thesis by simp
    next
      case Break
      with Suc.prems True it k show ?thesis by simp
    next
      case (Failed rc)
      with Suc.prems True it k show ?thesis by simp
    qed
  qed
qed

lemma lock_loop_failed:
  assumes "lock_loop n lo li mt ml w = Some (Inl rc, ml', w')"
  shows "rc < 0 \<and> (lockfile_fd ml = - 1 \<longrightarrow> fd_state (fd_lookup w) ml' w')"
  using assms
proof (induction n arbitrary: ml w)
  case 0
  then show ?case by (simp split: if_splits)
next
  case (Suc n)
  obtain fl ml1 w1 where it: "lock_iter lo li mt ml w = (fl, ml1, w1)"
    by (cases "lock_iter lo li mt ml w")
  show ?case
  proof (cases "locked ml = 0")
    case False
    with Suc.prems show ?thesis by simp
  next
    case True
    show ?thesis
    proof (cases fl)
      case Again
      with Suc.prems True it have l: "lock_loop n lo li mt ml1 w1 = Some (Inl rc, ml', w')"
        by simp
      from lock_iter_fd [where ml = ml and lo = lo and li = li and mt = mt and w = w] it Again
      have "lockfile_fd ml = - 1 \<longrightarrow> lockfile_fd ml1 = - 1 \<and> fd_lookup w1 = fd_lookup w"
        by simp
      with Suc.IH [OF l] show ?thesis by auto
    next
      case Break
      with Suc.prems True it show ?thesis by simp
    next
      case (Failed rc')
      with Suc.prems True it have e: "rc' = rc" "ml1 = ml'" "w1 = w'" by simp_all
      from lock_iter_rc [where ml = ml and lo = lo and li = li and mt = mt and w = w and rc = rc'] it Failed have "rc' < 0" by simp
      moreover from lock_iter_fd [where ml = ml and lo = lo and li = li and mt = mt and w = w] it Failed
      have "lockfile_fd ml = - 1 \<longrightarrow> fd_state (fd_lookup w) ml1 w1" by simp
      ultimately show ?thesis using e by simp
    qed
  qed
qed

text \<open>Passes that go round.\<close>

lemma passes_loop:
  "passes k lo li mt ml w = Some (mk, wk) \<Longrightarrow>
   lock_loop (k + n) lo li mt ml w = lock_loop n lo li mt mk wk"
proof (induction k arbitrary: ml w)
  case 0
  then show ?case by simp
next
  case (Suc k)
  from Suc.prems have l: "locked ml = 0" by (simp split: if_splits)
  obtain fl ml1 w1 where it: "lock_iter lo li mt ml w = (fl, ml1, w1)"
    by (cases "lock_iter lo li mt ml w")
  with Suc.prems l have "fl = Again" "passes k lo li mt ml1 w1 = Some (mk, wk)"
    by (cases fl; simp)+
  with Suc.IH [of ml1 w1] l it show ?case by simp
qed

lemma passes_snoc:
  "passes k lo li mt ml w = Some (mk, wk) \<Longrightarrow>
   passes (Suc k) lo li mt ml w = passes (Suc 0) lo li mt mk wk"
proof (induction k arbitrary: ml w)
  case 0
  then show ?case by simp
next
  case (Suc k)
  from Suc.prems have l: "locked ml = 0" by (simp split: if_splits)
  obtain fl ml1 w1 where it: "lock_iter lo li mt ml w = (fl, ml1, w1)"
    by (cases "lock_iter lo li mt ml w")
  with Suc.prems l have a: "fl = Again" "passes k lo li mt ml1 w1 = Some (mk, wk)"
    by (cases fl; simp)+
  from Suc.IH [OF a(2)] l it a(1) show ?case by simp
qed

lemma lock_iter_again:
  "fst (lock_iter lo li mt ml w) = Again \<Longrightarrow> locked ml = 0 \<Longrightarrow>
   locked (fst (snd (lock_iter lo li mt ml w))) = 0"
  by (auto simp: lock_iter_def Let_def split_beta split: sum.splits option.splits if_splits)

lemma passes_locked:
  "passes k lo li mt ml w = Some (mk, wk) \<Longrightarrow> locked ml = 0 \<Longrightarrow> locked mk = 0"
proof (induction k arbitrary: ml w)
  case 0
  then show ?case by simp
next
  case (Suc k)
  obtain fl ml1 w1 where it: "lock_iter lo li mt ml w = (fl, ml1, w1)"
    by (cases "lock_iter lo li mt ml w")
  with Suc.prems have a: "fl = Again" "passes k lo li mt ml1 w1 = Some (mk, wk)"
    by (cases fl; simp)+
  from lock_iter_again [of lo li mt ml w] it a(1) Suc.prems(2) have "locked ml1 = 0" by simp
  with Suc.IH [OF a(2)] show ?case by simp
qed

lemma passes_keeps:
  "passes k lo li mt ml w = Some (mk, wk) \<Longrightarrow>
   lockfile mk = lockfile ml \<and> linkfile mk = linkfile ml \<and> refuse wk = refuse w"
proof (induction k arbitrary: ml w)
  case 0
  then show ?case by simp
next
  case (Suc k)
  obtain fl ml1 w1 where it: "lock_iter lo li mt ml w = (fl, ml1, w1)"
    by (cases "lock_iter lo li mt ml w")
  with Suc.prems have a: "fl = Again" "passes k lo li mt ml1 w1 = Some (mk, wk)"
    by (cases fl; simp split: if_splits)+
  from it have "lockfile ml1 = lockfile ml" "linkfile ml1 = linkfile ml" "refuse w1 = refuse w"
    using lock_iter_paths [where lo = lo and li = li and mt = mt and ml = ml and w = w]
      lock_iter_refuse [where lo = lo and li = li and mt = mt and ml = ml and w = w]
    by simp_all
  with Suc.IH [OF a(2)] show ?case by simp
qed

subsection \<open>Release\<close>

lemma unlock_handle:
  "fst (mnt_unlock_file (Some ml) w) = Some (ml\<lparr>locked := 0, lockfile_fd := - 1\<rparr>)"
  by (simp add: mnt_unlock_file_def Let_def split_beta split: sum.splits)

lemma unlock_refuse [simp]: "refuse (snd (mnt_unlock_file mlp w)) = refuse w"
  by (simp add: mnt_unlock_file_def Let_def split_beta split: sum.splits option.splits)

lemma unlock_env [simp]:
  "list_all Q (env w) \<Longrightarrow> list_all Q (env (snd (mnt_unlock_file mlp w)))"
  by (simp add: mnt_unlock_file_def Let_def split_beta split: sum.splits option.splits)

lemma never_created_step:
  "never_created p w \<Longrightarrow> never_created p (snd (sys_stat q w))"
  "never_created p w \<Longrightarrow> never_created p (snd (sys_unlink q w))"
  "never_created p w \<Longrightarrow> never_created p (snd (sys_close fd w))"
  by (simp_all add: never_created_def)

lemma unlock_removes_link:
  assumes "linkfile ml = Some li" "never_created li w" "refuse w (Unlink li) = None"
  shows "fs (snd (mnt_unlock_file (Some ml) w)) li = None"
  using assms
  by (simp add: mnt_unlock_file_def Let_def split_beta never_created_step
      sys_unlink_removes sys_unlink_absent sys_close_absent split: sum.splits)

lemma unlock_fd:
  assumes "fd_state L ml w"
  shows "fd_lookup (snd (mnt_unlock_file (Some ml) w)) = L"
proof -
  have lk: "\<And>v p. fd_lookup (snd (sys_unlink p v)) = fd_lookup v"
    "\<And>v p. fd_lookup (snd (sys_stat p v)) = fd_lookup v"
    by (simp_all add: fd_lookup_def)
  from assms show ?thesis
    by (auto simp: fd_state_def mnt_unlock_file_def Let_def split_beta lk sys_close_lookup
        split: sum.splits option.splits)
qed

subsection \<open>Step 1\<close>

lemma create_linkfile_fields [simp]:
  "refuse (snd (create_linkfile li w)) = refuse w"
  "list_all Q (env w) \<Longrightarrow> list_all Q (env (snd (create_linkfile li w)))"
  by (simp_all add: create_linkfile_def split_beta split: sum.splits)

lemma create_linkfile_fd: "fd_lookup (snd (create_linkfile li w)) = fd_lookup w"
  using sys_open_fd [of li "{O_WRONLY, O_CREAT}" "S_IRUSR OR S_IWUSR" w]
  by (auto simp: create_linkfile_def split_beta sys_close_lookup split: sum.splits)

subsection \<open>A failed acquire\<close>

lemma handle_only_flags:
  "lockfile ml' = lockfile ml \<Longrightarrow> linkfile ml' = linkfile ml \<Longrightarrow>
   ml'\<lparr>locked := a, lockfile_fd := b\<rparr> = (ml :: mnt_lock)\<lparr>locked := a, lockfile_fd := b\<rparr>"
  by (cases ml, cases ml') simp

lemma lock_failed_rc: "lock_failed rc ml w = (rc', mlp, w') \<Longrightarrow>
  rc' = rc \<and> mnt_unlock_file (Some ml) w = (mlp, w')"
  by (auto simp: lock_failed_def split_beta)

text \<open>\<^verbatim>\<open>mnt_lock_file\<close> on a handler that has both paths and does not hold the lock.\<close>

lemma mnt_lock_file_unfold:
  assumes "locked ml = 0" "lockfile ml = Some lo" "linkfile ml = Some li"
  shows "mnt_lock_file fuel (Some ml) w =
     (case create_linkfile li w of
        (Inl e, w1) \<Rightarrow> Some (lock_failed (- errno_of e) ml w1)
      | (Inr u, w2) \<Rightarrow>
         (case lock_loop fuel lo li (gettimeofday w2 + MOUNTLOCK_MAXTIME) ml w2 of
            None \<Rightarrow> None
          | Some (Inl rc, ml', w') \<Rightarrow> Some (lock_failed rc ml' w')
          | Some (Inr u', ml', w') \<Rightarrow> Some (0, Some ml', snd (sys_unlink li w'))))"
  using assms
  by (simp add: mnt_lock_file_def mnt_lock_get_lockfile_def mnt_lock_get_linkfile_def
      errno_of_pos Let_def split: prod.splits sum.splits)

lemma failed_lock_cases:
  assumes "mnt_lock_file fuel (Some ml) w = Some (rc, mlp, w')" and "rc \<noteq> 0"
    and "lockfile ml = Some lo" and "linkfile ml = Some li"
  shows "\<exists>ml2 w2. failed_at fuel lo li ml w rc ml2 w2
      \<and> mnt_unlock_file (Some ml2) w2 = (mlp, w') \<and> rc < 0
      \<and> lockfile ml2 = lockfile ml \<and> linkfile ml2 = linkfile ml \<and> refuse w2 = refuse w
      \<and> (never_created li w \<longrightarrow> never_created li w2)
      \<and> (never_created lo w \<longrightarrow> never_created lo w2)
      \<and> (lockfile_fd ml = - 1 \<longrightarrow> fd_state (fd_lookup w) ml2 w2)"
proof -
  from assms have l0: "locked ml = 0"
    by (auto simp: mnt_lock_file_def split: if_splits)
  note unf = mnt_lock_file_unfold [OF l0 assms(3,4), of fuel w]
  obtain r w1 where c: "create_linkfile li w = (r, w1)" by (cases "create_linkfile li w")
  have w1: "refuse w1 = refuse w" "never_created p w \<longrightarrow> never_created p w1"
    "fd_lookup w1 = fd_lookup w" for p
    using c create_linkfile_fields(1) [of li w] create_linkfile_fd [of li w]
      create_linkfile_fields(2) [where li = li and w = w]
    by (simp_all add: never_created_def)
  show ?thesis
  proof (cases r)
    case (Inl e)
    with assms(1) unf c have f: "lock_failed (- errno_of e) ml w1 = (rc, mlp, w')" by simp
    from lock_failed_rc [OF f] c Inl have "failed_at fuel lo li ml w rc ml w1"
      by (simp add: failed_at_def)
    with lock_failed_rc [OF f] w1 errno_of_pos [of e] show ?thesis
      by (intro exI [of _ ml] exI [of _ w1]) (simp add: fd_state_def)
  next
    case (Inr u)
    define R where "R = lock_loop fuel lo li (gettimeofday w1 + MOUNTLOCK_MAXTIME) ml w1"
    from assms(1) unf c Inr have m: "(case R of
            None \<Rightarrow> None
          | Some (Inl rc, ml', w') \<Rightarrow> Some (lock_failed rc ml' w')
          | Some (Inr u', ml', w') \<Rightarrow> Some (0, Some ml', snd (sys_unlink li w'))) = Some (rc, mlp, w')"
      by (simp add: R_def)
    then obtain x ml2 w2 where R: "R = Some (x, ml2, w2)"
      by (cases R) auto
    show ?thesis
    proof (cases x)
      case (Inr u')
      with m R assms(2) show ?thesis by simp
    next
      case (Inl rc')
      with m R have f: "lock_failed rc' ml2 w2 = (rc, mlp, w')" by simp
      from R Inl have lp: "lock_loop fuel lo li (gettimeofday w1 + MOUNTLOCK_MAXTIME) ml w1
          = Some (Inl rc', ml2, w2)"
        by (simp add: R_def)
      from lp lock_failed_rc [OF f] c \<open>r = Inr u\<close> have "failed_at fuel lo li ml w rc ml2 w2"
        by (simp add: failed_at_def)
      with lock_loop_keeps [OF lp, of "\<lambda>e. list_all (\<lambda>x. \<not> ext_creates li x) (ev_ext e)"]
        lock_loop_keeps [OF lp, of "\<lambda>e. list_all (\<lambda>x. \<not> ext_creates lo x) (ev_ext e)"]
        lock_loop_failed [OF lp] lock_failed_rc [OF f] w1
      show ?thesis
        by (intro exI [of _ ml2] exI [of _ w2]) (simp add: never_created_def)
    qed
  qed
qed

section \<open>Inside the loop\<close>

lemmas ex_defs = mtab_handle_eq stale_world_def mtab_world_def contended_world_def race_world_def
lemmas more_ex_defs = race_start_world_def late_race_world_def denied_world_def signal_world_def

subsection \<open>The open of the lock file fails\<close>

lemma loop_error_is_returned:
  assumes "locked ml = 0" "lockfile ml = Some lo" "linkfile ml = Some li"
    and "create_linkfile li w = (Inr u, w2)"
    and "lock_loop fuel lo li (gettimeofday w2 + MOUNTLOCK_MAXTIME) ml w2 = Some (Inl rc, ml', w')"
  shows "mnt_lock_file fuel (Some ml) w = Some (lock_failed rc ml' w')"
    and "map_option fst (mnt_lock_file fuel (Some ml) w) = Some rc"
  using assms by (simp_all add: mnt_lock_file_unfold lock_failed_def split_beta)

lemma open_failure_pass:
  assumes "locked ml = 0"
    and "sys_link li lo w = (j, w1)" and "j = Inr () \<or> j = Inl EEXIST"
    and "sys_open lo {O_WRONLY} 0 w1 = (Inl e, w2)"
  shows "lock_iter lo li mt ml w =
     (if e = ENOENT \<and> gettimeofday w2 < mt
      then (Again, ml\<lparr>locked := 0, lockfile_fd := - 1\<rparr>, w2)
      else (Failed (- errno_of e),
            (if j = Inr () then ml\<lparr>locked := 1\<rparr> else ml)\<lparr>lockfile_fd := - 1\<rparr>, w2))"
  using assms by (auto simp: lock_iter_def Let_def errno_of_pos)

text \<open>
  Claim C7. \<^verbatim>\<open>mnt_lock_file\<close> on a handler with its two paths, once step 1 has made
  the link file, in any pass of the loop (the \<open>k\<close> passes before it have all gone round):
  the \<^verbatim>\<open>link\<close> has succeeded or has failed with \<open>EEXIST\<close>, and the \<^verbatim>\<open>open\<close> of
  the lock file fails with the error \<open>e\<close>. When \<open>e\<close> is \<open>ENOENT\<close> and the clock is
  before the deadline, the pass ends by \<^verbatim>\<open>continue\<close>: the next pass starts at the
  \<^verbatim>\<open>link\<close> with \<open>locked\<close> back at 0, no error is returned, and
  \<^verbatim>\<open>mnt_lock_file\<close> returns what the loop yields from there. In every other case
  \<^verbatim>\<open>mnt_lock_file\<close> releases and returns the negated error number of the
  \<^verbatim>\<open>open\<close>; the handler comes back with \<open>locked\<close> 0 and \<open>lockfile_fd\<close> -1.
\<close>

theorem open_failure_in_loop:
  assumes "locked ml = 0" and "lockfile ml = Some lo" and "linkfile ml = Some li"
    and "create_linkfile li w = (Inr u, w0)"
    and "passes k lo li (gettimeofday w0 + MOUNTLOCK_MAXTIME) ml w0 = Some (mk, wk)"
    and "sys_link li lo wk = (j, w1)" and "j = Inr () \<or> j = Inl EEXIST"
    and "sys_open lo {O_WRONLY} 0 w1 = (Inl e, w2)"
  shows "(e = ENOENT \<and> gettimeofday w2 < gettimeofday w0 + MOUNTLOCK_MAXTIME \<longrightarrow>
            passes (Suc k) lo li (gettimeofday w0 + MOUNTLOCK_MAXTIME) ml w0 =
              Some (mk\<lparr>locked := 0, lockfile_fd := - 1\<rparr>, w2)
            \<and> mnt_lock_file (k + Suc n) (Some ml) w =
               (case lock_loop n lo li (gettimeofday w0 + MOUNTLOCK_MAXTIME)
                       (mk\<lparr>locked := 0, lockfile_fd := - 1\<rparr>) w2 of
                  None \<Rightarrow> None
                | Some (Inl rc, ml', w') \<Rightarrow> Some (lock_failed rc ml' w')
                | Some (Inr u', ml', w') \<Rightarrow> Some (0, Some ml', snd (sys_unlink li w'))))
    \<and> (\<not> (e = ENOENT \<and> gettimeofday w2 < gettimeofday w0 + MOUNTLOCK_MAXTIME) \<longrightarrow>
            mnt_lock_file (k + Suc n) (Some ml) w =
              Some (- errno_of e,
                    mnt_unlock_file
                      (Some ((if j = Inr () then mk\<lparr>locked := 1\<rparr> else mk)\<lparr>lockfile_fd := - 1\<rparr>)) w2)
            \<and> map_option fst (mnt_lock_file (k + Suc n) (Some ml) w) = Some (- errno_of e)
            \<and> map_option (fst \<circ> snd) (mnt_lock_file (k + Suc n) (Some ml) w)
                = Some (Some (ml\<lparr>locked := 0, lockfile_fd := - 1\<rparr>)))"
proof -
  let ?mt = "gettimeofday w0 + MOUNTLOCK_MAXTIME"
  let ?f = "(if j = Inr () then mk\<lparr>locked := 1\<rparr> else mk)\<lparr>lockfile_fd := - 1\<rparr>"
  have lk: "locked mk = 0" using assms(5,1) by (rule passes_locked)
  have it: "lock_iter lo li ?mt mk wk =
     (if e = ENOENT \<and> gettimeofday w2 < ?mt
      then (Again, mk\<lparr>locked := 0, lockfile_fd := - 1\<rparr>, w2)
      else (Failed (- errno_of e), ?f, w2))"
    using lk assms(6,7,8) by (rule open_failure_pass)
  have unf: "mnt_lock_file (k + Suc n) (Some ml) w =
      (case lock_loop (Suc n) lo li ?mt mk wk of
         None \<Rightarrow> None
       | Some (Inl rc, ml', w') \<Rightarrow> Some (lock_failed rc ml' w')
       | Some (Inr u', ml', w') \<Rightarrow> Some (0, Some ml', snd (sys_unlink li w')))"
    using assms(4) passes_loop [OF assms(5), of "Suc n"]
    by (simp add: mnt_lock_file_unfold [OF assms(1,2,3)] del: lock_loop.simps)
  have sn: "passes (Suc k) lo li ?mt ml w0 = passes (Suc 0) lo li ?mt mk wk"
    using assms(5) by (rule passes_snoc)
  have pk: "lockfile mk = lockfile ml" "linkfile mk = linkfile ml"
    using passes_keeps [OF assms(5)] by simp_all
  have fl: "?f\<lparr>locked := 0, lockfile_fd := - 1\<rparr> = ml\<lparr>locked := 0, lockfile_fd := - 1\<rparr>"
    by (rule handle_only_flags) (simp_all add: pk)
  show ?thesis
  proof (intro conjI impI)
    assume c: "e = ENOENT \<and> gettimeofday w2 < ?mt"
    with it lk have p: "passes (Suc 0) lo li ?mt mk wk = Some (mk\<lparr>locked := 0, lockfile_fd := - 1\<rparr>, w2)"
      and l: "lock_loop (Suc n) lo li ?mt mk wk =
        lock_loop n lo li ?mt (mk\<lparr>locked := 0, lockfile_fd := - 1\<rparr>) w2"
      by simp_all
    show "passes (Suc k) lo li ?mt ml w0 = Some (mk\<lparr>locked := 0, lockfile_fd := - 1\<rparr>, w2)"
      unfolding sn by (rule p)
    show "mnt_lock_file (k + Suc n) (Some ml) w =
               (case lock_loop n lo li ?mt (mk\<lparr>locked := 0, lockfile_fd := - 1\<rparr>) w2 of
                  None \<Rightarrow> None
                | Some (Inl rc, ml', w') \<Rightarrow> Some (lock_failed rc ml' w')
                | Some (Inr u', ml', w') \<Rightarrow> Some (0, Some ml', snd (sys_unlink li w')))"
      unfolding unf l by (rule refl)
  next
    assume c: "\<not> (e = ENOENT \<and> gettimeofday w2 < ?mt)"
    with it lk have "lock_loop (Suc n) lo li ?mt mk wk = Some (Inl (- errno_of e), ?f, w2)"
      by simp
    with unf have "mnt_lock_file (k + Suc n) (Some ml) w = Some (lock_failed (- errno_of e) ?f w2)"
      by (simp del: lock_loop.simps)
    then show m: "mnt_lock_file (k + Suc n) (Some ml) w =
        Some (- errno_of e, mnt_unlock_file (Some ?f) w2)"
      by (simp add: lock_failed_def split_beta)
    show "map_option fst (mnt_lock_file (k + Suc n) (Some ml) w) = Some (- errno_of e)"
      unfolding m by simp
    have "fst (mnt_unlock_file (Some ?f) w2) = Some (?f\<lparr>locked := 0, lockfile_fd := - 1\<rparr>)"
      by (rule unlock_handle)
    then show "map_option (fst \<circ> snd) (mnt_lock_file (k + Suc n) (Some ml) w)
                = Some (Some (ml\<lparr>locked := 0, lockfile_fd := - 1\<rparr>))"
      unfolding m fl by simp
  qed
qed

theorem open_failure_in_loop_witness:
  "map_option fst (mnt_lock_file (Suc (Suc 0)) (Some mtab_handle) race_start_world) = Some 0
   \<and> passes (Suc 0) ''/etc/mtab~'' ''/etc/mtab~.4711'' 1030 mtab_handle race_world =
       Some (mtab_handle, snd (sys_open ''/etc/mtab~'' {O_WRONLY} 0
          (snd (sys_link ''/etc/mtab~.4711'' ''/etc/mtab~'' race_world))))
   \<and> mnt_lock_file (Suc 0) (Some mtab_handle) late_race_world =
       Some (- 2, mnt_unlock_file (Some mtab_handle)
          (snd (sys_open ''/etc/mtab~'' {O_WRONLY} 0
             (snd (sys_link ''/etc/mtab~.4711'' ''/etc/mtab~''
                (snd (create_linkfile ''/etc/mtab~.4711'' late_race_world)))))))
   \<and> map_option fst (mnt_lock_file (Suc 0) (Some mtab_handle) denied_world) = Some (- 13)
   \<and> map_option (fst \<circ> snd) (mnt_lock_file (Suc 0) (Some mtab_handle) denied_world)
       = Some (Some mtab_handle)"
proof -
  let ?lo = "''/etc/mtab~''" and ?li = "''/etc/mtab~.4711''"
  have h: "locked mtab_handle = 0" "lockfile mtab_handle = Some ?lo"
    "linkfile mtab_handle = Some ?li"
    "mtab_handle\<lparr>locked := 0, lockfile_fd := - 1\<rparr> = mtab_handle"
    "mtab_handle\<lparr>lockfile_fd := - 1\<rparr> = mtab_handle"
    by (simp_all add: mtab_handle_eq)
  let ?l = "sys_link ?li ?lo race_world"
  let ?o = "sys_open ?lo {O_WRONLY} 0 (snd ?l)"
  have a1: "create_linkfile ?li race_start_world = (Inr (), race_world)"
    by (simp add: ex_defs more_ex_defs run_defs cong: run_congs)
  have a2: "passes 0 ?lo ?li (gettimeofday race_world + MOUNTLOCK_MAXTIME) mtab_handle race_world
      = Some (mtab_handle, race_world)"
    by simp
  have a3: "?l = (Inl EEXIST, snd ?l)"
    by (simp add: prod_eq_iff ex_defs run_defs cong: run_congs)
  have a4: "?o = (Inl ENOENT, snd ?o)"
    by (simp add: prod_eq_iff ex_defs run_defs cong: run_congs)
  have a5: "gettimeofday (snd ?o) = 1000" "gettimeofday race_world = 1000"
    by (simp_all add: ex_defs run_defs cong: run_congs)
  have a6: "map_option fst (lock_loop (Suc 0) ?lo ?li 1030 mtab_handle (snd ?o)) = Some (Inr ())"
    by (simp add: ex_defs run_defs cong: run_congs)
  from a6 obtain ml' w' where
    a7: "lock_loop (Suc 0) ?lo ?li 1030 mtab_handle (snd ?o) = Some (Inr (), ml', w')"
    by (cases "lock_loop (Suc 0) ?lo ?li 1030 mtab_handle (snd ?o)") auto
  from open_failure_in_loop [OF h(1,2,3) a1 a2 a3 _ a4, where n = "Suc 0"] a5 h
  have r2: "passes (Suc 0) ?lo ?li 1030 mtab_handle race_world = Some (mtab_handle, snd ?o)"
    and "mnt_lock_file (Suc (Suc 0)) (Some mtab_handle) race_start_world =
        (case lock_loop (Suc 0) ?lo ?li 1030 mtab_handle (snd ?o) of
           None \<Rightarrow> None
         | Some (Inl rc, ml', w') \<Rightarrow> Some (lock_failed rc ml' w')
         | Some (Inr u', ml', w') \<Rightarrow> Some (0, Some ml', snd (sys_unlink ?li w')))"
    by (simp_all add: MOUNTLOCK_MAXTIME_def del: lock_loop.simps passes.simps)
  then have r1: "map_option fst (mnt_lock_file (Suc (Suc 0)) (Some mtab_handle) race_start_world) = Some 0"
    by (simp add: a7 del: lock_loop.simps)
  let ?w = "snd (create_linkfile ?li late_race_world)"
  let ?l = "sys_link ?li ?lo ?w"
  let ?o = "sys_open ?lo {O_WRONLY} 0 (snd ?l)"
  have b1: "create_linkfile ?li late_race_world = (Inr (), ?w)"
    by (simp add: prod_eq_iff ex_defs more_ex_defs run_defs cong: run_congs)
  have b2: "passes 0 ?lo ?li (gettimeofday ?w + MOUNTLOCK_MAXTIME) mtab_handle ?w
      = Some (mtab_handle, ?w)"
    by simp
  have b3: "?l = (Inl EEXIST, snd ?l)"
    by (simp add: prod_eq_iff ex_defs more_ex_defs run_defs cong: run_congs)
  have b4: "?o = (Inl ENOENT, snd ?o)"
    by (simp add: prod_eq_iff ex_defs more_ex_defs run_defs cong: run_congs)
  have b5: "gettimeofday (snd ?o) = 1030" "gettimeofday ?w = 1000"
    by (simp_all add: ex_defs more_ex_defs run_defs cong: run_congs)
  from open_failure_in_loop [OF h(1,2,3) b1 b2 b3 _ b4, where n = 0] b5 h
  have r3: "mnt_lock_file (Suc 0) (Some mtab_handle) late_race_world =
       Some (- 2, mnt_unlock_file (Some mtab_handle) (snd ?o))"
    by (simp add: MOUNTLOCK_MAXTIME_def del: lock_loop.simps passes.simps)
  let ?w = "snd (create_linkfile ?li denied_world)"
  let ?l = "sys_link ?li ?lo ?w"
  let ?o = "sys_open ?lo {O_WRONLY} 0 (snd ?l)"
  have c1: "create_linkfile ?li denied_world = (Inr (), ?w)"
    by (simp add: prod_eq_iff ex_defs more_ex_defs run_defs cong: run_congs)
  have c2: "passes 0 ?lo ?li (gettimeofday ?w + MOUNTLOCK_MAXTIME) mtab_handle ?w
      = Some (mtab_handle, ?w)"
    by simp
  have c3: "?l = (Inr (), snd ?l)"
    by (simp add: prod_eq_iff ex_defs more_ex_defs run_defs cong: run_congs)
  have c4: "?o = (Inl EACCES, snd ?o)"
    by (simp add: prod_eq_iff ex_defs more_ex_defs run_defs cong: run_congs)
  have c5: "\<not> (EACCES = ENOENT \<and> gettimeofday (snd ?o) < gettimeofday ?w + MOUNTLOCK_MAXTIME)"
    by simp
  note t = open_failure_in_loop [OF h(1,2,3) c1 c2 c3 _ c4, where n = 0,
      THEN conjunct2, THEN mp, OF _ c5, unfolded add_0 h(4)]
  have r4: "map_option fst (mnt_lock_file (Suc 0) (Some mtab_handle) denied_world) = Some (- 13)"
    using t [THEN conjunct2, THEN conjunct1] by simp
  have r5: "map_option (fst \<circ> snd) (mnt_lock_file (Suc 0) (Some mtab_handle) denied_world)
       = Some (Some mtab_handle)"
    using t [THEN conjunct2, THEN conjunct2] by simp
  from r1 r2 r3 r4 r5 show ?thesis by (intro conjI)
qed

subsection \<open>The wait for the record lock\<close>

text \<open>
  A pass in which the link exists already and the lock file has been opened: the three
  ways the wait can end.
\<close>

lemma wait_outcomes:
  assumes "locked ml = 0"
    and "sys_link li lo w = (Inl EEXIST, w1)"
    and "sys_open lo {O_WRONLY} 0 w1 = (Inr fd, w2)"
  shows "lock_loop (Suc n) lo li mt ml w =
     (if mt \<le> gettimeofday w2
      then Some (Inl (- errno_of ETIMEDOUT), ml\<lparr>lockfile_fd := fd\<rparr>, w2)
      else
        (case fcntl_setlkw fd (sys_alarm (nat ((mt - gettimeofday w2) mod 2 ^ 32)) w2) of
           (Inl e, w3) \<Rightarrow>
             Some (Inl (if e = EINTR then - errno_of ETIMEDOUT else - errno_of e),
                   ml\<lparr>lockfile_fd := fd\<rparr>, sys_alarm 0 w3)
         | (Inr u, w3) \<Rightarrow>
             lock_loop n lo li mt (ml\<lparr>lockfile_fd := - 1\<rparr>)
               (snd (sys_close fd (nanosleep (1000 * MOUNTLOCK_WAITTIME) (sys_alarm 0 w3))))))"
proof -
  have pos: "- errno_of e \<noteq> 1" "- errno_of e < 0" for e
    using errno_of_pos [of e] by linarith+
  have it: "lock_iter lo li mt ml w =
     (if mt \<le> gettimeofday w2
      then (Failed (- errno_of ETIMEDOUT), ml\<lparr>lockfile_fd := fd\<rparr>, w2)
      else
        (case fcntl_setlkw fd (sys_alarm (nat ((mt - gettimeofday w2) mod 2 ^ 32)) w2) of
           (Inl e, w3) \<Rightarrow>
             (Failed (if e = EINTR then - errno_of ETIMEDOUT else - errno_of e),
              ml\<lparr>lockfile_fd := fd\<rparr>, sys_alarm 0 w3)
         | (Inr u, w3) \<Rightarrow>
             (Again, ml\<lparr>lockfile_fd := - 1\<rparr>,
              snd (sys_close fd (nanosleep (1000 * MOUNTLOCK_WAITTIME) (sys_alarm 0 w3))))))"
    using assms pos
    by (auto simp: lock_iter_def mnt_wait_lock_def Let_def split: prod.splits sum.splits)
  show ?thesis
    using assms(1) by (simp add: it split: prod.splits sum.splits)
qed

text \<open>
  The alarm is set to the deadline. So when no other signal interrupts the
  \<^verbatim>\<open>fcntl\<close>, \<^verbatim>\<open>mnt_wait_lock\<close> returns 1 only once the deadline has passed, as
  its comment says ("1 on timeout").
\<close>

lemma wait_timeout_at_deadline:
  assumes "fst (mnt_wait_lock ml mt w) = 1" and "mt - gettimeofday w < 2 ^ 32"
    and "case env w of [] \<Rightarrow> True | e # es \<Rightarrow> ev_errno e \<noteq> Some EINTR"
  shows "mt \<le> gettimeofday (snd (mnt_wait_lock ml mt w))"
proof (cases "mt \<le> gettimeofday w")
  case True
  then show ?thesis by (simp add: mnt_wait_lock_def)
next
  case False
  let ?a = "sys_alarm (nat ((mt - gettimeofday w) mod 2 ^ 32)) w"
  from False assms(2) have m: "(mt - clock w) mod 2 ^ 32 = mt - clock w"
    by (simp add: gettimeofday_def)
  from False m have al: "alarm_at ?a = Some mt" "clock ?a = clock w" "env ?a = env w"
    by (simp_all add: sys_alarm_def gettimeofday_def)
  have pos: "- errno_of e \<noteq> 1" "errno_of e \<noteq> - 1" for e
    using errno_of_pos [of e] by linarith+
  have ev: "ev_errno (fst (env_next ?a)) \<noteq> Some EINTR"
    using assms(3) al(3) by (simp add: env_next_def idle_def split: list.splits)
  from False assms(1) have f: "fst (fcntl_setlkw (lockfile_fd ml) ?a) = Inl EINTR"
    by (auto simp: mnt_wait_lock_def Let_def split_beta pos split: sum.splits if_splits)
  with ev al(1,2) have "mt \<le> clock (snd (fcntl_setlkw (lockfile_fd ml) ?a))"
    by (auto simp: fcntl_setlkw_def split_beta split: if_splits option.splits)
  with False show ?thesis
    by (simp add: mnt_wait_lock_def Let_def split_beta gettimeofday_def)
qed

text \<open>
  Claim C1. An interrupted wait before the deadline is to be transient: close, sleep, try
  again, and \<^verbatim>\<open>-ETIMEDOUT\<close> only when the deadline has passed; that is also what the
  comments of the source promise (\<^verbatim>\<open>mnt_wait_lock\<close> returns "1 on timeout",
  \<^verbatim>\<open>mnt_lock_file\<close> returns \<^verbatim>\<open>-ETIMEDOUT\<close> "in case of stale lock file"). The
  code takes every \<open>EINTR\<close> of the \<^verbatim>\<open>fcntl\<close> for the timeout
  (\<^verbatim>\<open>ret = errno == EINTR ? 1 : -errno\<close>), also that of a signal other than the alarm.
  Here the lock file is held by somebody else and such a signal ends the wait at once.
  \<^verbatim>\<open>mnt_lock_file\<close> returns \<^verbatim>\<open>-ETIMEDOUT\<close> while the clock still shows 1000 and
  the deadline is 1030; the first pass has not gone round (with fuel for three passes),
  and the release has been done: the handler is back as it was, the link file is removed
  and no descriptor is left open.
\<close>

theorem interrupted_wait_reported_as_timeout:
  "map_option fst (mnt_lock_file (Suc (Suc (Suc 0))) (Some mtab_handle) signal_world)
     = Some (- errno_of ETIMEDOUT)
   \<and> map_option (fst \<circ> snd) (mnt_lock_file (Suc (Suc (Suc 0))) (Some mtab_handle) signal_world)
     = Some (Some mtab_handle)
   \<and> map_option (\<lambda>r. clock (snd (snd r)))
        (mnt_lock_file (Suc (Suc (Suc 0))) (Some mtab_handle) signal_world) = Some 1000
   \<and> gettimeofday (snd (create_linkfile ''/etc/mtab~.4711'' signal_world)) + MOUNTLOCK_MAXTIME
     = 1030
   \<and> passes (Suc 0) ''/etc/mtab~'' ''/etc/mtab~.4711'' 1030 mtab_handle
        (snd (create_linkfile ''/etc/mtab~.4711'' signal_world)) = None
   \<and> map_option (\<lambda>r. fs (snd (snd r)) ''/etc/mtab~.4711'')
        (mnt_lock_file (Suc (Suc (Suc 0))) (Some mtab_handle) signal_world) = Some None
   \<and> map_option (\<lambda>r. fd_table (snd (snd r)))
        (mnt_lock_file (Suc (Suc (Suc 0))) (Some mtab_handle) signal_world)
     = Some [None, None, None]"
  by (simp add: signal_world_def ex_defs run_defs cong: run_congs)

section \<open>When nobody interferes\<close>

lemma undisturbed_step [simp]:
  "undisturbed w \<Longrightarrow> undisturbed (snd (enter w))"
  "undisturbed w \<Longrightarrow> undisturbed (snd (sys_open p fl m w))"
  "undisturbed w \<Longrightarrow> undisturbed (snd (sys_close fd w))"
  "undisturbed w \<Longrightarrow> undisturbed (snd (sys_unlink p w))"
  "undisturbed w \<Longrightarrow> undisturbed (snd (sys_stat p w))"
  by (simp_all add: undisturbed_def)

lemma stat_eq_iff: "st_dev a = st_dev b \<and> st_ino a = st_ino b \<longleftrightarrow> (a :: stat) = b"
  by (cases a, cases b) simp

lemma sys_open_refused:
  "refuse w (Open p) = Some e \<Longrightarrow> sys_open p fl m w = (Inl e, snd (enter w))"
  by (simp add: sys_open_def split_beta)

lemma sys_open_undisturbed:
  assumes "undisturbed w" "refuse w (Open p) = None"
  shows "fs w p \<noteq> None \<or> O_CREAT \<in> fl \<Longrightarrow> \<exists>n. fst (sys_open p fl m w) = Inr n"
    and "fs w p = None \<Longrightarrow> O_CREAT \<in> fl \<Longrightarrow>
         fs (snd (sys_open p fl m w)) = (fs w)(p \<mapsto> \<lparr>st_dev = mount w p, st_ino = next_ino w\<rparr>)
         \<and> inodes (snd (sys_open p fl m w)) =
             (inodes w)(\<lparr>st_dev = mount w p, st_ino = next_ino w\<rparr> \<mapsto>
                \<lparr>i_mode = m AND NOT (umask w), i_data = []\<rparr>)"
    and "fs w p \<noteq> None \<Longrightarrow> O_TRUNC \<notin> fl \<Longrightarrow>
         fs (snd (sys_open p fl m w)) = fs w \<and> inodes (snd (sys_open p fl m w)) = inodes w"
  using assms
  by (auto simp: sys_open_def split_beta new_file_def Let_def open_fd_def split: option.splits)

subsection \<open>Step 1\<close>

text \<open>
  Claim C6 says that step 1 leaves the link file empty and with permission for the
  owner only. The \<^verbatim>\<open>open\<close> has \<^verbatim>\<open>O_WRONLY|O_CREAT\<close> and no \<^verbatim>\<open>O_TRUNC\<close>: a link
  file that exists keeps its contents and its mode.
\<close>

theorem linkfile_not_truncated:
  "fst (create_linkfile ''/etc/mtab~.4711'' leftover_world) = Inr ()
   \<and> file_at (snd (create_linkfile ''/etc/mtab~.4711'' leftover_world)) ''/etc/mtab~.4711''
       = Some \<lparr>i_mode = 420, i_data = ''left over''\<rparr>"
  by (simp add: leftover_world_def mtab_world_def file_at_def run_defs cong: run_congs)

text \<open>
  Claim C6, amended. Step 1 opens the link file with \<^verbatim>\<open>O_WRONLY|O_CREAT\<close> and the mode
  0600 and closes the descriptor at once, so that the open descriptors are those of
  before. When the path does not exist, the file is created empty with the permission
  0600 less the umask; when it exists, it is left as it is, contents and mode. When the
  \<^verbatim>\<open>open\<close> is refused, \<^verbatim>\<open>mnt_lock_file\<close> returns the negated error after the
  release, whatever the fuel: no pass of the loop is made.
\<close>

theorem linkfile_step:
  assumes "undisturbed w"
  shows "(\<forall>e. refuse w (Open li) = Some e \<longrightarrow>
            create_linkfile li w = (Inl e, snd (enter w)) \<and>
            (\<forall>fuel ml lo. locked ml = 0 \<and> lockfile ml = Some lo \<and> linkfile ml = Some li \<longrightarrow>
               mnt_lock_file fuel (Some ml) w =
                 Some (lock_failed (- errno_of e) ml (snd (enter w)))))
    \<and> (refuse w (Open li) = None \<longrightarrow>
          fst (create_linkfile li w) = Inr () \<and>
          (fs w li = None \<longrightarrow>
             file_at (snd (create_linkfile li w)) li =
               Some \<lparr>i_mode = (S_IRUSR OR S_IWUSR) AND NOT (umask w), i_data = []\<rparr>) \<and>
          (fs w li \<noteq> None \<longrightarrow>
             fs (snd (create_linkfile li w)) = fs w \<and>
             inodes (snd (create_linkfile li w)) = inodes w))
    \<and> fd_lookup (snd (create_linkfile li w)) = fd_lookup w"
proof (intro conjI allI impI)
  fix e assume r: "refuse w (Open li) = Some e"
  then show c: "create_linkfile li w = (Inl e, snd (enter w))"
    by (simp add: create_linkfile_def sys_open_refused)
  fix fuel and ml :: mnt_lock and lo
  assume "locked ml = 0 \<and> lockfile ml = Some lo \<and> linkfile ml = Some li"
  then show "mnt_lock_file fuel (Some ml) w = Some (lock_failed (- errno_of e) ml (snd (enter w)))"
    by (simp add: mnt_lock_file_unfold c)
next
  assume r: "refuse w (Open li) = None"
  let ?o = "sys_open li {O_WRONLY, O_CREAT} (S_IRUSR OR S_IWUSR) w"
  from sys_open_undisturbed(1) [OF assms r, of "{O_WRONLY, O_CREAT}"]
  obtain n where n: "fst ?o = Inr n" by blast
  then show "fst (create_linkfile li w) = Inr ()"
    by (simp add: create_linkfile_def split_beta)
  have u: "undisturbed (snd ?o)" using assms by simp
  {
    assume a: "fs w li = None"
    from sys_open_undisturbed(2) [OF assms r a, of "{O_WRONLY, O_CREAT}" "S_IRUSR OR S_IWUSR"]
    show "file_at (snd (create_linkfile li w)) li =
        Some \<lparr>i_mode = (S_IRUSR OR S_IWUSR) AND NOT (umask w), i_data = []\<rparr>"
      using n u by (simp add: create_linkfile_def split_beta file_at_def)
  }
  {
    assume a: "fs w li \<noteq> None"
    from sys_open_undisturbed(3) [OF assms r a, of "{O_WRONLY, O_CREAT}" "S_IRUSR OR S_IWUSR"]
    show "fs (snd (create_linkfile li w)) = fs w" "inodes (snd (create_linkfile li w)) = inodes w"
      using n u by (simp_all add: create_linkfile_def split_beta)
  }
next
  show "fd_lookup (snd (create_linkfile li w)) = fd_lookup w" by (rule create_linkfile_fd)
qed

theorem linkfile_step_witness:
  "file_at (snd (create_linkfile ''/etc/mtab~.4711'' mtab_world)) ''/etc/mtab~.4711''
     = Some \<lparr>i_mode = 384, i_data = []\<rparr>
   \<and> fd_lookup (snd (create_linkfile ''/etc/mtab~.4711'' mtab_world)) = fd_lookup mtab_world
   \<and> inodes (snd (create_linkfile ''/etc/mtab~.4711'' leftover_world)) = inodes leftover_world
   \<and> map_option fst (mnt_lock_file 1 (Some mtab_handle)
        (mtab_world\<lparr>refuse := (\<lambda>c. if c = Open ''/etc/mtab~.4711'' then Some EROFS else None)\<rparr>))
       = Some (- 30)"
proof -
  let ?R = "mtab_world\<lparr>refuse := (\<lambda>c. if c = Open ''/etc/mtab~.4711'' then Some EROFS else None)\<rparr>"
  have u: "undisturbed mtab_world" "undisturbed leftover_world" "undisturbed ?R"
    by (simp_all add: undisturbed_def mtab_world_def leftover_world_def)
  have a: "refuse mtab_world (Open ''/etc/mtab~.4711'') = None"
    "fs mtab_world ''/etc/mtab~.4711'' = None" "umask mtab_world = 18"
    "refuse leftover_world (Open ''/etc/mtab~.4711'') = None"
    "fs leftover_world ''/etc/mtab~.4711'' \<noteq> None"
    "refuse ?R (Open ''/etc/mtab~.4711'') = Some EROFS"
    by (simp_all add: mtab_world_def leftover_world_def)
  have h: "locked mtab_handle = 0" "lockfile mtab_handle = Some ''/etc/mtab~''"
    "linkfile mtab_handle = Some ''/etc/mtab~.4711''"
    by (simp_all add: mtab_handle_eq)
  have m: "(S_IRUSR OR S_IWUSR) AND NOT 18 = (384 :: 32 word)"
    by (simp add: S_IRUSR_def S_IWUSR_def)
  from linkfile_step [OF u(1), of "''/etc/mtab~.4711''"]
    linkfile_step [OF u(2), of "''/etc/mtab~.4711''"]
    linkfile_step [OF u(3), of "''/etc/mtab~.4711''"] a h m
  show ?thesis
    by (simp add: lock_failed_def split_beta)
qed

subsection \<open>Release\<close>

lemma unlock_in_halves:
  "mnt_unlock_file (Some ml) w =
     (Some (ml\<lparr>locked := 0, lockfile_fd := - 1\<rparr>),
      unlock_calls (fst (unlock_check ml w)) (snd (unlock_check ml w)))"
proof -
  have "mnt_unlock_file (Some ml) w =
     (Some ((fst (unlock_check ml w))\<lparr>locked := 0, lockfile_fd := - 1\<rparr>),
      unlock_calls (fst (unlock_check ml w)) (snd (unlock_check ml w)))"
    by (simp add: mnt_unlock_file_def unlock_check_def unlock_calls_def Let_def split_beta)
  moreover have "(fst (unlock_check ml w))\<lparr>locked := 0, lockfile_fd := - 1\<rparr>
      = ml\<lparr>locked := 0, lockfile_fd := - 1\<rparr>"
    by (simp add: unlock_check_def split_beta split: sum.splits)
  ultimately show ?thesis by simp
qed

lemma unlock_check_undisturbed:
  assumes "undisturbed w"
  shows "fst (unlock_check ml w) = (if release_owner ml w then ml\<lparr>locked := 1\<rparr> else ml)"
    and "fs (snd (unlock_check ml w)) = fs w"
    and "inodes (snd (unlock_check ml w)) = inodes w"
    and "fd_table (snd (unlock_check ml w)) = fd_table w"
    and "refuse (snd (unlock_check ml w)) = refuse w"
    and "undisturbed (snd (unlock_check ml w))"
proof -
  show "fs (snd (unlock_check ml w)) = fs w" "inodes (snd (unlock_check ml w)) = inodes w"
    "fd_table (snd (unlock_check ml w)) = fd_table w"
    "refuse (snd (unlock_check ml w)) = refuse w" "undisturbed (snd (unlock_check ml w))"
    using assms by (simp_all add: unlock_check_def split_beta split: sum.splits)
  show "fst (unlock_check ml w) = (if release_owner ml w then ml\<lparr>locked := 1\<rparr> else ml)"
  proof (cases "locked ml = 0 \<and> lockfile ml \<noteq> None \<and> linkfile ml \<noteq> None")
    case False
    then have "fst (unlock_check ml w) = ml" by (auto simp: unlock_check_def)
    moreover from False have "release_owner ml w \<Longrightarrow> ml\<lparr>locked := 1\<rparr> = ml"
      by (auto simp: release_owner_def split: option.splits)
    ultimately show ?thesis by simp
  next
    case True
    then obtain lo li where p: "locked ml = 0" "lockfile ml = Some lo" "linkfile ml = Some li"
      by auto
    with assms show ?thesis
      by (auto simp: unlock_check_def split_beta release_owner_def same_file_def stat_eq_iff
          split: option.splits)
  qed
qed

lemma unlock_calls_undisturbed:
  assumes "undisturbed w"
  shows "fs (unlock_calls ml w) =
           (if locked ml = 1 then unlinked w (lockfile ml) (unlinked w (linkfile ml) (fs w))
            else unlinked w (linkfile ml) (fs w))"
    and "inodes (unlock_calls ml w) = inodes w"
    and "fd_table (unlock_calls ml w) =
           (if fd_open w (lockfile_fd ml) then (fd_table w)[nat (lockfile_fd ml) := None]
            else fd_table w)"
    and "undisturbed (unlock_calls ml w)"
proof -
  define w2 where "w2 = (case linkfile ml of Some p \<Rightarrow> snd (sys_unlink p w) | None \<Rightarrow> w)"
  define w3 where "w3 = (if lockfile_fd ml \<ge> 0 then snd (sys_close (lockfile_fd ml) w2) else w2)"
  have c: "unlock_calls ml w =
      (if locked ml = 1 \<and> lockfile ml \<noteq> None then snd (sys_unlink (the (lockfile ml)) w3) else w3)"
    unfolding unlock_calls_def w2_def w3_def Let_def by (rule refl)
  have 2: "undisturbed w2" "fs w2 = unlinked w (linkfile ml) (fs w)" "inodes w2 = inodes w"
    "fd_table w2 = fd_table w" "refuse w2 = refuse w"
    using assms by (simp_all add: w2_def unlinked_def split: option.splits)
  have 3: "undisturbed w3" "fs w3 = fs w2" "inodes w3 = inodes w2" "refuse w3 = refuse w2"
    using 2 by (simp_all add: w3_def)
  have 4: "fd_table w3 =
      (if fd_open w (lockfile_fd ml) then (fd_table w)[nat (lockfile_fd ml) := None]
       else fd_table w)"
    using 2(4) by (auto simp: w3_def sys_close_def split_beta fd_open_def)
  show "fs (unlock_calls ml w) =
           (if locked ml = 1 then unlinked w (lockfile ml) (unlinked w (linkfile ml) (fs w))
            else unlinked w (linkfile ml) (fs w))"
    using 2 3 by (auto simp: c unlinked_def split: option.splits)
  show "inodes (unlock_calls ml w) = inodes w" using 2 3 by (simp add: c)
  show "fd_table (unlock_calls ml w) =
           (if fd_open w (lockfile_fd ml) then (fd_table w)[nat (lockfile_fd ml) := None]
            else fd_table w)"
    using 4 by (simp add: c)
  show "undisturbed (unlock_calls ml w)" using 3 by (simp add: c)
qed

text \<open>\<^verbatim>\<open>mnt_unlock_file\<close> in closed form, when no other process acts.\<close>

lemma unlock_undisturbed:
  assumes "undisturbed w"
  shows "fs (snd (mnt_unlock_file (Some ml) w)) =
           (if release_owner ml w
            then unlinked w (lockfile ml) (unlinked w (linkfile ml) (fs w))
            else unlinked w (linkfile ml) (fs w))"
    and "inodes (snd (mnt_unlock_file (Some ml) w)) = inodes w"
    and "undisturbed (snd (mnt_unlock_file (Some ml) w))"
    and "fd_table (snd (mnt_unlock_file (Some ml) w)) =
           (if fd_open w (lockfile_fd ml) then (fd_table w)[nat (lockfile_fd ml) := None]
            else fd_table w)"
proof -
  let ?c = "unlock_check ml w"
  note k = unlock_check_undisturbed [OF assms, of ml]
  note t = unlock_calls_undisturbed [OF k(6), of "fst ?c"]
  have o: "locked (fst ?c) = 1 \<longleftrightarrow> release_owner ml w"
    by (auto simp: k(1) release_owner_def)
  have p: "lockfile (fst ?c) = lockfile ml" "linkfile (fst ?c) = linkfile ml"
    "lockfile_fd (fst ?c) = lockfile_fd ml"
    by (simp_all add: k(1))
  have u: "unlinked (snd ?c) = unlinked w"
    by (intro ext) (simp add: unlinked_def k(5) split: option.splits)
  have f: "fd_open (snd ?c) = fd_open w"
    by (intro ext) (simp add: fd_open_def k(4))
  show "fs (snd (mnt_unlock_file (Some ml) w)) =
           (if release_owner ml w
            then unlinked w (lockfile ml) (unlinked w (linkfile ml) (fs w))
            else unlinked w (linkfile ml) (fs w))"
    by (simp add: unlock_in_halves t(1) o p u k(2))
  show "inodes (snd (mnt_unlock_file (Some ml) w)) = inodes w"
    by (simp add: unlock_in_halves t(2) k(3))
  show "undisturbed (snd (mnt_unlock_file (Some ml) w))"
    by (simp add: unlock_in_halves t(4))
  show "fd_table (snd (mnt_unlock_file (Some ml) w)) =
           (if fd_open w (lockfile_fd ml) then (fd_table w)[nat (lockfile_fd ml) := None]
            else fd_table w)"
    by (simp add: unlock_in_halves t(3) p f k(4))
qed

lemma new_lock_world:
  "undisturbed (snd (mnt_new_lock dp id' w)) = undisturbed w"
  "fs (snd (mnt_new_lock dp id' w)) = fs w"
  "refuse (snd (mnt_new_lock dp id' w)) = refuse w"
proof -
  have "snd (mnt_new_lock dp id' w) = w \<or>
      snd (mnt_new_lock dp id' w) = w\<lparr>heap_free := heap_free w - 3\<rparr>"
  proof (cases dp)
    case None
    then show ?thesis by (simp add: mnt_new_lock_def)
  next
    case (Some p)
    then show ?thesis by (simp add: new_lock_result)
  qed
  then show "undisturbed (snd (mnt_new_lock dp id' w)) = undisturbed w"
    "fs (snd (mnt_new_lock dp id' w)) = fs w"
    "refuse (snd (mnt_new_lock dp id' w)) = refuse w"
    by (auto simp: undisturbed_def)
qed

text \<open>
  Claim C3 says that \<^verbatim>\<open>mnt_new_lock\<close> followed at once by \<^verbatim>\<open>mnt_unlock_file\<close>
  leaves a lock file that exists in place. When the link file of the new handler exists
  too and is the same file as the lock file, the release takes the handler for the owner
  (the check "We own the lock when linkfile == lockfile") and removes the lock file.
\<close>

theorem fresh_handle_removes_twin_lock:
  "fs twin_world ''/etc/mtab~'' = Some \<lparr>st_dev = 8, st_ino = 2\<rparr>
   \<and> fst (mnt_new_lock (Some ''/etc/mtab'') 0 twin_world) = Some mtab_handle
   \<and> fs (snd (mnt_unlock_file (fst (mnt_new_lock (Some ''/etc/mtab'') 0 twin_world))
                (snd (mnt_new_lock (Some ''/etc/mtab'') 0 twin_world)))) ''/etc/mtab~'' = None"
proof -
  have n: "mnt_new_lock (Some ''/etc/mtab'') 0 twin_world =
      (Some mtab_handle, twin_world\<lparr>heap_free := 5\<rparr>)"
    by (simp add: new_lock_result twin_world_def mtab_world_def mtab_handle_def)
  show ?thesis
    unfolding n
    by (simp add: twin_world_def mtab_world_def mtab_handle_eq run_defs cong: run_congs)
qed

text \<open>
  Claim C3, amended. When no other process acts during the release: for every handler
  with \<open>locked\<close> 0 whose link file is not the same file as its lock file,
  \<^verbatim>\<open>mnt_unlock_file\<close> leaves the entry of the lock file as it is; and
  \<^verbatim>\<open>mnt_new_lock\<close> followed at once by \<^verbatim>\<open>mnt_unlock_file\<close> leaves it as it is
  provided the link file of the new handler is not already the same file as the lock
  file.
\<close>

theorem release_by_non_owner:
  assumes "undisturbed w"
  shows "(locked ml = 0 \<and> lockfile ml = Some lo \<and>
            (\<forall>li. linkfile ml = Some li \<longrightarrow> \<not> same_file w lo li)
          \<longrightarrow> fs (snd (mnt_unlock_file (Some ml) w)) lo = fs w lo)
    \<and> (\<not> same_file w (p @ ''~'') (p @ ''~.'' @ show_int (if id' = 0 then getpid w else id'))
          \<longrightarrow> fs (snd (mnt_unlock_file (fst (mnt_new_lock (Some p) id' w))
                          (snd (mnt_new_lock (Some p) id' w)))) (p @ ''~'')
               = fs w (p @ ''~''))"
proof -
  have one: "fs (snd (mnt_unlock_file (Some m) v)) lo = fs v lo"
    if "undisturbed v" "locked m = 0" "lockfile m = Some lo"
      "\<And>li. linkfile m = Some li \<Longrightarrow> \<not> same_file v lo li"
    for m v lo
  proof -
    from that have "\<not> release_owner m v"
      by (auto simp: release_owner_def split: option.splits)
    with that show ?thesis
      by (auto simp: unlock_undisturbed(1) unlinked_def same_file_def split: option.splits)
  qed
  have two: "fs (snd (mnt_unlock_file (fst (mnt_new_lock (Some p) id' w))
                          (snd (mnt_new_lock (Some p) id' w)))) (p @ ''~'') = fs w (p @ ''~'')"
    if ns: "\<not> same_file w (p @ ''~'') (p @ ''~.'' @ show_int (if id' = 0 then getpid w else id'))"
  proof (cases "3 \<le> heap_free w")
    case False
    then show ?thesis
      by (simp add: new_lock_result mnt_unlock_file_def)
  next
    case True
    let ?v = "w\<lparr>heap_free := heap_free w - 3\<rparr>"
    let ?m = "handle_for p (if id' \<noteq> 0 then id' else pid w)"
    from True have n: "mnt_new_lock (Some p) id' w = (Some ?m, ?v)"
      by (simp add: new_lock_result)
    have v: "undisturbed ?v" "fs ?v = fs w" using assms by (simp_all add: undisturbed_def)
    have "fs (snd (mnt_unlock_file (Some ?m) ?v)) (p @ ''~'') = fs ?v (p @ ''~'')"
    proof (rule one [OF v(1)])
      show "locked ?m = 0" "lockfile ?m = Some (p @ ''~'')" by (simp_all add: handle_for_def)
      fix li assume "linkfile ?m = Some li"
      moreover have "(if id' = 0 then getpid w else id') = (if id' \<noteq> 0 then id' else pid w)"
        by (simp add: getpid_def)
      ultimately show "\<not> same_file ?v (p @ ''~'') li"
        using ns by (auto simp: handle_for_def same_file_def)
    qed
    with n show ?thesis by simp
  qed
  from one [OF assms, of ml lo] two show ?thesis by blast
qed

theorem release_by_non_owner_witness:
  "fs (snd (mnt_unlock_file (Some mtab_handle) (stale_world\<lparr>env := []\<rparr>))) ''/etc/mtab~''
     = Some \<lparr>st_dev = 8, st_ino = 2\<rparr>
   \<and> fs (snd (mnt_unlock_file (fst (mnt_new_lock (Some ''/etc/mtab'') 0 (stale_world\<lparr>env := []\<rparr>)))
                (snd (mnt_new_lock (Some ''/etc/mtab'') 0 (stale_world\<lparr>env := []\<rparr>)))))
        ''/etc/mtab~''
     = Some \<lparr>st_dev = 8, st_ino = 2\<rparr>"
proof -
  let ?S = "stale_world\<lparr>env := []\<rparr>"
  have u: "undisturbed ?S" by (simp add: undisturbed_def)
  have h: "locked mtab_handle = 0" "lockfile mtab_handle = Some ''/etc/mtab~''"
    "linkfile mtab_handle = Some ''/etc/mtab~.4711''"
    by (simp_all add: mtab_handle_eq)
  have s: "\<not> same_file ?S ''/etc/mtab~'' ''/etc/mtab~.4711''"
    "fs ?S ''/etc/mtab~'' = Some \<lparr>st_dev = 8, st_ino = 2\<rparr>"
    "getpid ?S = 4711" "show_int 4711 = ''4711''"
    by (simp_all add: same_file_def stale_world_def mtab_world_def getpid_def show_int_def
        show_nat.simps)
  from release_by_non_owner [OF u, of mtab_handle "''/etc/mtab~''" "''/etc/mtab''" 0] h s
  show ?thesis by simp
qed

text \<open>
  Claim C5. When no other process acts and a call that the file system refuses stays
  refused, releasing twice is releasing once: the first \<^verbatim>\<open>mnt_unlock_file\<close> returns
  the handler with \<open>locked\<close> 0 and \<open>lockfile_fd\<close> -1, and the second returns the same
  handler and leaves the directory, the files and the descriptors as the first left them.
  \<^verbatim>\<open>mnt_unlock_file\<close> has no error to return. The handler's \<open>locked\<close> is 0 or 1, the
  two values the code gives it.
\<close>

theorem release_twice:
  assumes "undisturbed w" and "locked ml = 0 \<or> locked ml = 1"
  shows "fst (mnt_unlock_file (Some ml) w) = Some (ml\<lparr>locked := 0, lockfile_fd := - 1\<rparr>)
    \<and> (case mnt_unlock_file (Some ml) w of
         (mlp1, w1) \<Rightarrow>
           (case mnt_unlock_file mlp1 w1 of
              (mlp2, w2) \<Rightarrow>
                mlp2 = mlp1 \<and> fs w2 = fs w1 \<and> inodes w2 = inodes w1 \<and>
                fd_table w2 = fd_table w1))"
proof -
  let ?m = "ml\<lparr>locked := 0, lockfile_fd := - 1\<rparr>"
  let ?w1 = "snd (mnt_unlock_file (Some ml) w)"
  let ?w2 = "snd (mnt_unlock_file (Some ?m) ?w1)"
  note a = unlock_undisturbed [OF assms(1), of ml]
  note b = unlock_undisturbed [OF a(3), of ?m]
  have r: "refuse ?w1 = refuse w" by simp
  have un: "unlinked ?w1 = unlinked w"
    by (intro ext) (simp add: unlinked_def split: option.splits)
  have fd: "fd_table ?w2 = fd_table ?w1"
    by (simp add: b(4) fd_open_def)
  have ino: "inodes ?w2 = inodes ?w1" by (simp add: b(2))
  have idem: "unlinked w x (unlinked w x f) = unlinked w x f" for x f
    by (simp add: unlinked_def split: option.splits)
  have comm: "unlinked w x (unlinked w y f) = unlinked w y (unlinked w x f)" for x y f
    by (auto simp: unlinked_def fun_eq_iff split: option.splits)
  have link: "unlinked w (linkfile ml) (fs ?w1) = fs ?w1"
    by (simp add: a(1) idem comm [of "linkfile ml" "lockfile ml"])
  have lock: "unlinked w (lockfile ml) (fs ?w1) = fs ?w1" if o': "release_owner ?m ?w1"
  proof (cases "release_owner ml w")
    case True
    then show ?thesis by (simp add: a(1) idem)
  next
    case False
    from o' obtain lo li where p: "lockfile ml = Some lo" "linkfile ml = Some li"
      and st: "refuse w (Stat lo) = None" "refuse w (Stat li) = None"
      and sf: "same_file ?w1 lo li"
      by (auto simp: release_owner_def r split: option.splits)
    from False assms(2) have l0: "locked ml = 0" by (auto simp: release_owner_def)
    with False p st have ns: "\<not> same_file w lo li" by (simp add: release_owner_def)
    from False p have f1: "fs ?w1 = unlinked w (Some li) (fs w)" by (simp add: a(1))
    show ?thesis
    proof (cases "refuse w (Unlink li) = None")
      case True
      with f1 have "fs ?w1 li = None" by (simp add: unlinked_def)
      with sf show ?thesis by (auto simp: same_file_def)
    next
      case False
      with f1 have "fs ?w1 = fs w" by (simp add: unlinked_def)
      with sf ns show ?thesis by (auto simp: same_file_def)
    qed
  qed
  have dir: "fs ?w2 = fs ?w1"
    using link lock by (simp add: b(1) un)
  have m: "?m\<lparr>locked := 0, lockfile_fd := - 1\<rparr> = ?m" by simp
  show ?thesis
    using fd ino dir by (simp add: split_beta unlock_handle m)
qed

theorem release_twice_witness:
  "fst (mnt_unlock_file (Some (mtab_handle\<lparr>locked := 1, lockfile_fd := 0\<rparr>))
          (stale_world\<lparr>fd_table := [Some \<lparr>st_dev = 8, st_ino = 2\<rparr>], env := []\<rparr>))
     = Some mtab_handle
   \<and> fs (snd (mnt_unlock_file (Some (mtab_handle\<lparr>locked := 1, lockfile_fd := 0\<rparr>))
          (stale_world\<lparr>fd_table := [Some \<lparr>st_dev = 8, st_ino = 2\<rparr>], env := []\<rparr>)))
        ''/etc/mtab~'' = None
   \<and> (case mnt_unlock_file (Some (mtab_handle\<lparr>locked := 1, lockfile_fd := 0\<rparr>))
          (stale_world\<lparr>fd_table := [Some \<lparr>st_dev = 8, st_ino = 2\<rparr>], env := []\<rparr>) of
         (mlp1, w1) \<Rightarrow>
           (case mnt_unlock_file mlp1 w1 of
              (mlp2, w2) \<Rightarrow>
                mlp2 = mlp1 \<and> fs w2 = fs w1 \<and> inodes w2 = inodes w1 \<and>
                fd_table w2 = fd_table w1))"
proof -
  let ?H = "mtab_handle\<lparr>locked := 1, lockfile_fd := 0\<rparr>"
  let ?O = "stale_world\<lparr>fd_table := [Some \<lparr>st_dev = 8, st_ino = 2\<rparr>], env := []\<rparr>"
  have u: "undisturbed ?O" by (simp add: undisturbed_def)
  have l: "locked ?H = 0 \<or> locked ?H = 1" by simp
  have h: "?H\<lparr>locked := 0, lockfile_fd := - 1\<rparr> = mtab_handle"
    by (simp add: mtab_handle_eq)
  have d: "fs (snd (mnt_unlock_file (Some ?H) ?O)) ''/etc/mtab~'' = None"
    by (simp add: stale_world_def mtab_world_def mtab_handle_eq run_defs cong: run_congs)
  from release_twice [OF u l] h d show ?thesis by simp
qed

section \<open>A failed acquire leaves nothing behind\<close>

text \<open>What the calls of the loop leave of the directory when no other process acts.\<close>

lemma undisturbed_more [simp]:
  "undisturbed w \<Longrightarrow> undisturbed (snd (sys_link p q w))"
  "undisturbed w \<Longrightarrow> undisturbed (snd (fcntl_setlk fd w))"
  "undisturbed w \<Longrightarrow> undisturbed (snd (mnt_wait_lock ml mt w))"
  "undisturbed w \<Longrightarrow> undisturbed (nanosleep n w)"
  "undisturbed w \<Longrightarrow> undisturbed (snd (create_linkfile p w))"
  "undisturbed w \<Longrightarrow> undisturbed (snd (snd (lock_iter lo li mt ml w)))"
  by (simp_all add: undisturbed_def)

lemma dir_kept [simp]:
  assumes "undisturbed w"
  shows "fs (snd (sys_open p {O_WRONLY} m w)) = fs w"
    and "fs (snd (fcntl_setlk fd w)) = fs w"
    and "fs (snd (fcntl_setlkw fd (sys_alarm k w))) = fs w"
    and "fs (nanosleep n w) = fs w"
    and "fs (snd (mnt_wait_lock ml mt w)) = fs w"
proof -
  show "fs (snd (sys_open p {O_WRONLY} m w)) = fs w"
    using assms by (simp add: sys_open_def split_beta split: option.splits)
  show "fs (snd (fcntl_setlk fd w)) = fs w"
    using assms by (simp add: fcntl_setlk_def split_beta split: option.splits)
  have u: "undisturbed (sys_alarm k w)" for k
    using assms by (simp add: undisturbed_def)
  have a: "fs (snd (fcntl_setlkw fd (sys_alarm k w))) = fs w" for k fd
    using u [of k] by (simp add: fcntl_setlkw_def split_beta pass_time_def split: option.splits)
  show "fs (snd (fcntl_setlkw fd (sys_alarm k w))) = fs w" by (rule a)
  show "fs (nanosleep n w) = fs w"
    using assms by (simp add: nanosleep_def)
  show "fs (snd (mnt_wait_lock ml mt w)) = fs w"
    by (simp add: mnt_wait_lock_def Let_def split_beta a)
qed

lemma sys_link_undisturbed:
  assumes "undisturbed w"
  shows "case sys_link p q w of
           (Inr u, w') \<Rightarrow> (\<exists>i. fs w p = Some i \<and> fs w q = None \<and> fs w' = (fs w)(q \<mapsto> i))
         | (Inl e, w') \<Rightarrow> fs w' = fs w"
  using assms by (simp add: sys_link_def split_beta split: option.splits)

lemma lock_iter_dir:
  assumes "undisturbed w" and "locked ml = 0"
  shows "case lock_iter lo li mt ml w of
           (fl, ml', w') \<Rightarrow>
             (fs w' = fs w \<and> locked ml' = 0) \<or>
             (\<exists>i. fs w li = Some i \<and> fs w lo = None \<and> fs w' = (fs w)(lo \<mapsto> i) \<and>
                  (locked ml' = 0 \<or> locked ml' = 1))"
proof -
  obtain j w1 where l: "sys_link li lo w = (j, w1)" by (cases "sys_link li lo w")
  have u1: "undisturbed w1" using assms(1) undisturbed_more(1) [of w li lo] l by simp
  show ?thesis
  proof (cases j)
    case (Inl e)
    with sys_link_undisturbed [OF assms(1), of li lo] l have "fs w1 = fs w" by simp
    with Inl l u1 assms(2) show ?thesis
      by (simp add: lock_iter_def Let_def split_beta split: sum.splits)
  next
    case (Inr u)
    with sys_link_undisturbed [OF assms(1), of li lo] l obtain i where
      "fs w li = Some i" "fs w lo = None" "fs w1 = (fs w)(lo \<mapsto> i)" by auto
    with Inr l u1 show ?thesis
      by (simp add: lock_iter_def Let_def split_beta split: sum.splits)
  qed
qed

lemma lock_loop_dir:
  assumes "lock_loop n lo li mt ml w = Some (Inl rc, ml', w')"
    and "undisturbed w" and "lo \<noteq> li" and "locked ml = 0" and "F li = Some i"
    and "fs w = F \<or> (F lo = None \<and> fs w = F(lo \<mapsto> i))"
  shows "undisturbed w' \<and>
    ((fs w' = F \<and> locked ml' = 0) \<or>
     (F lo = None \<and> fs w' = F(lo \<mapsto> i) \<and> (locked ml' = 0 \<or> locked ml' = 1)))"
  using assms(1,2,4,6)
proof (induction n arbitrary: ml w)
  case 0
  then show ?case by simp
next
  case (Suc n)
  obtain fl ml1 w1 where it: "lock_iter lo li mt ml w = (fl, ml1, w1)"
    by (cases "lock_iter lo li mt ml w")
  have u1: "undisturbed w1"
    using undisturbed_more(6) [OF Suc.prems(2), of lo li mt ml] it by simp
  from lock_iter_dir [OF Suc.prems(2,3), where lo = lo and li = li and mt = mt] it
  have d: "(fs w1 = fs w \<and> locked ml1 = 0) \<or>
      (\<exists>i'. fs w li = Some i' \<and> fs w lo = None \<and> fs w1 = (fs w)(lo \<mapsto> i') \<and>
           (locked ml1 = 0 \<or> locked ml1 = 1))"
    by simp
  have li: "fs w li = Some i" using Suc.prems(4) assms(3,5) by auto
  from d li Suc.prems(4) assms(3)
  have k: "(fs w1 = F \<and> locked ml1 = 0) \<or>
     (F lo = None \<and> fs w1 = F(lo \<mapsto> i) \<and> (locked ml1 = 0 \<or> locked ml1 = 1))"
    by auto
  show ?case
  proof (cases fl)
    case Again
    with Suc.prems(1,3) it have l: "lock_loop n lo li mt ml1 w1 = Some (Inl rc, ml', w')"
      by simp
    from lock_iter_again [of lo li mt ml w] it Again Suc.prems(3) have l1: "locked ml1 = 0"
      by simp
    from k have "fs w1 = F \<or> (F lo = None \<and> fs w1 = F(lo \<mapsto> i))" by auto
    from Suc.IH [OF l u1 l1 this] show ?thesis .
  next
    case Break
    with Suc.prems(1,3) it show ?thesis by simp
  next
    case (Failed rc')
    with Suc.prems(1,3) it have e: "ml1 = ml'" "w1 = w'" by simp_all
    from u1 k show ?thesis unfolding e by (rule conjI)
  qed
qed

lemma unlock_removes_lock:
  assumes "locked ml = 1" "lockfile ml = Some lo" "never_created lo w"
    "refuse w (Unlink lo) = None"
  shows "fs (snd (mnt_unlock_file (Some ml) w)) lo = None"
  using assms
  by (simp add: mnt_unlock_file_def Let_def split_beta never_created_step
      sys_unlink_removes split: option.splits)

lemma failed_acquire_dir:
  assumes "mnt_lock_file fuel (Some ml) w = Some (rc, mlp, w')" and "rc \<noteq> 0"
    and "lockfile ml = Some lo" and "linkfile ml = Some li"
    and "undisturbed w" and "lo \<noteq> li" and "fs w li = None"
    and "fs w lo \<noteq> Some \<lparr>st_dev = mount w li, st_ino = next_ino w\<rparr>"
    and "refuse w (Stat lo) = None" and "refuse w (Stat li) = None"
    and "refuse w (Unlink lo) = None" and "refuse w (Unlink li) = None"
  shows "fs w' = fs w"
proof -
  let ?i = "\<lparr>st_dev = mount w li, st_ino = next_ino w\<rparr>"
  from assms have l0: "locked ml = 0"
    by (auto simp: mnt_lock_file_def split: if_splits)
  from failed_lock_cases [OF assms(1-4)] obtain ml2 w2 where
    fa: "failed_at fuel lo li ml w rc ml2 w2"
    and u: "mnt_unlock_file (Some ml2) w2 = (mlp, w')"
    and p: "lockfile ml2 = lockfile ml" "linkfile ml2 = linkfile ml" "refuse w2 = refuse w"
    by blast
  have w': "w' = snd (mnt_unlock_file (Some ml2) w2)" by (simp add: u)
  have un: "unlinked w2 (Some q) f = f(q := None)" if "q = lo \<or> q = li" for q f
    using that assms(11,12) p(3) by (auto simp: unlinked_def)
  obtain r w1 where c: "create_linkfile li w = (r, w1)" by (cases "create_linkfile li w")
  have u1: "undisturbed w1" using undisturbed_more(5) [OF assms(5), of li] c by simp
  show ?thesis
  proof (cases r)
    case (Inl e)
    with fa c have e: "ml2 = ml" "w2 = w1" by (simp_all add: failed_at_def)
    from c Inl assms(5) have d: "fs w1 = fs w"
      by (auto simp: create_linkfile_def sys_open_def split_beta new_file_def Let_def open_fd_def
          split: option.splits sum.splits if_splits)
    have "\<not> release_owner ml w1"
      using l0 assms(3,4,7) d by (auto simp: release_owner_def same_file_def)
    with unlock_undisturbed(1) [OF u1, of ml] assms(3,4,7) d un e
    show ?thesis
      by (auto simp: w' fun_eq_iff)
  next
    case (Inr x)
    from c Inr have o: "fst (sys_open li {O_WRONLY, O_CREAT} (S_IRUSR OR S_IWUSR) w) \<noteq> Inl e" for e
      by (auto simp: create_linkfile_def split_beta split: sum.splits)
    then have nr: "refuse w (Open li) = None"
      by (cases "refuse w (Open li)") (auto simp: sys_open_refused)
    from sys_open_undisturbed(2) [OF assms(5) nr assms(7), of "{O_WRONLY, O_CREAT}" "S_IRUSR OR S_IWUSR"]
      c Inr assms(5)
    have d: "fs w1 = (fs w)(li \<mapsto> ?i)"
      by (auto simp: create_linkfile_def split_beta split: sum.splits)
    from fa c Inr have lp: "lock_loop fuel lo li (gettimeofday w1 + MOUNTLOCK_MAXTIME) ml w1
        = Some (Inl rc, ml2, w2)"
      by (simp add: failed_at_def)
    from lock_loop_dir [OF lp u1 assms(6) l0, of "fs w1" ?i] d
    have u2: "undisturbed w2"
      and k: "(fs w2 = fs w1 \<and> locked ml2 = 0) \<or>
        (fs w1 lo = None \<and> fs w2 = (fs w1)(lo \<mapsto> ?i) \<and> (locked ml2 = 0 \<or> locked ml2 = 1))"
      by simp_all
    from k show ?thesis
    proof
      assume a: "fs w2 = fs w1 \<and> locked ml2 = 0"
      with d assms(3,4,6,8) p have "\<not> release_owner ml2 w2"
        by (auto simp: release_owner_def same_file_def)
      with unlock_undisturbed(1) [OF u2, of ml2] p assms(3,4,7) a d un
      show ?thesis by (auto simp: w' fun_eq_iff)
    next
      assume a: "fs w1 lo = None \<and> fs w2 = (fs w1)(lo \<mapsto> ?i) \<and> (locked ml2 = 0 \<or> locked ml2 = 1)"
      with d assms(3,4,6,9,10) p have "release_owner ml2 w2"
        by (auto simp: release_owner_def same_file_def)
      with unlock_undisturbed(1) [OF u2, of ml2] p assms(3,4,6,7) a d un
      show ?thesis by (auto simp: w' fun_eq_iff)
    qed
  qed
qed

text \<open>
  Claim C8. Whenever \<^verbatim>\<open>mnt_lock_file\<close> returns an error for a handler that has
  its two paths (as every handler of \<^verbatim>\<open>mnt_new_lock\<close> has), the error is negative
  and the release has been performed as the last step, on the handler and the state with
  which the label \<^verbatim>\<open>failed\<close> was reached: the state returned is the result of that
  \<^verbatim>\<open>mnt_unlock_file\<close>, and the handler is the old one with \<open>locked\<close> 0 and
  \<open>lockfile_fd\<close> -1. The link file is gone, and so is the lock file when the attempt had
  made the link (\<open>locked\<close> was 1 at the label), provided no other process creates the path
  again and the file system does not refuse the \<^verbatim>\<open>unlink\<close>. Every descriptor the
  attempt has opened is closed again: for a handler that held no descriptor, the table of
  open descriptors is the one before the call. And when no other process acts, the link
  file did not exist before, the number of the new file is not that of the lock file, and
  \<^verbatim>\<open>stat\<close> and \<^verbatim>\<open>unlink\<close> of the two paths are not refused, the directory after
  the failed call is the directory before it.
\<close>

theorem failed_lock_is_released:
  assumes "mnt_lock_file fuel (Some ml) w = Some (rc, mlp, w')" and "rc \<noteq> 0"
    and "lockfile ml = Some lo" and "linkfile ml = Some li"
  shows "rc < 0
    \<and> mlp = Some (ml\<lparr>locked := 0, lockfile_fd := - 1\<rparr>)
    \<and> (\<exists>ml0 w0. failed_at fuel lo li ml w rc ml0 w0 \<and>
          lockfile ml0 = Some lo \<and> linkfile ml0 = Some li \<and>
          mnt_unlock_file (Some ml0) w0 = (mlp, w') \<and>
          (locked ml0 = 1 \<and> refuse w (Unlink lo) = None \<and> never_created lo w
             \<longrightarrow> fs w' lo = None))
    \<and> (refuse w (Unlink li) = None \<and> never_created li w \<longrightarrow> fs w' li = None)
    \<and> (lockfile_fd ml = - 1 \<longrightarrow> fd_lookup w' = fd_lookup w)
    \<and> (undisturbed w \<and> lo \<noteq> li \<and> fs w li = None \<and>
        fs w lo \<noteq> Some \<lparr>st_dev = mount w li, st_ino = next_ino w\<rparr> \<and>
        refuse w (Stat lo) = None \<and> refuse w (Stat li) = None \<and>
        refuse w (Unlink lo) = None \<and> refuse w (Unlink li) = None
          \<longrightarrow> fs w' = fs w)"
proof -
  from failed_lock_cases [OF assms] obtain ml2 w2 where
    fa: "failed_at fuel lo li ml w rc ml2 w2"
    and u: "mnt_unlock_file (Some ml2) w2 = (mlp, w')" and neg: "rc < 0"
    and p: "lockfile ml2 = lockfile ml" "linkfile ml2 = linkfile ml"
    and e: "refuse w2 = refuse w" "never_created li w \<longrightarrow> never_created li w2"
      "never_created lo w \<longrightarrow> never_created lo w2"
    and d: "lockfile_fd ml = - 1 \<longrightarrow> fd_state (fd_lookup w) ml2 w2"
    by blast
  have w': "w' = snd (mnt_unlock_file (Some ml2) w2)" and m': "mlp = fst (mnt_unlock_file (Some ml2) w2)"
    by (simp_all add: u)
  have "mlp = Some (ml2\<lparr>locked := 0, lockfile_fd := - 1\<rparr>)"
    unfolding m' by (rule unlock_handle)
  also have "ml2\<lparr>locked := 0, lockfile_fd := - 1\<rparr> = ml\<lparr>locked := 0, lockfile_fd := - 1\<rparr>"
    using p by (rule handle_only_flags)
  finally have h: "mlp = Some (ml\<lparr>locked := 0, lockfile_fd := - 1\<rparr>)" .
  have g: "fs w' li = None" if a: "refuse w (Unlink li) = None" "never_created li w"
  proof -
    from p assms(4) have "linkfile ml2 = Some li" by simp
    moreover from e a have "never_created li w2" "refuse w2 (Unlink li) = None" by simp_all
    ultimately show ?thesis unfolding w' by (rule unlock_removes_link)
  qed
  have o: "fs w' lo = None"
    if a: "locked ml2 = 1" "refuse w (Unlink lo) = None" "never_created lo w"
  proof -
    from p assms(3) have "lockfile ml2 = Some lo" by simp
    moreover from e a have "never_created lo w2" "refuse w2 (Unlink lo) = None" by simp_all
    ultimately show ?thesis unfolding w' using a(1) by (intro unlock_removes_lock)
  qed
  have k: "fd_lookup w' = fd_lookup w" if "lockfile_fd ml = - 1"
  proof -
    from d that have "fd_state (fd_lookup w) ml2 w2" by simp
    then show ?thesis unfolding w' by (rule unlock_fd)
  qed
  have q: "fs w' = fs w"
    if "undisturbed w \<and> lo \<noteq> li \<and> fs w li = None \<and>
        fs w lo \<noteq> Some \<lparr>st_dev = mount w li, st_ino = next_ino w\<rparr> \<and>
        refuse w (Stat lo) = None \<and> refuse w (Stat li) = None \<and>
        refuse w (Unlink lo) = None \<and> refuse w (Unlink li) = None"
    using that by (intro failed_acquire_dir [OF assms]) simp_all
  from p assms(3,4) fa u o have "failed_at fuel lo li ml w rc ml2 w2 \<and>
        lockfile ml2 = Some lo \<and> linkfile ml2 = Some li \<and>
        mnt_unlock_file (Some ml2) w2 = (mlp, w') \<and>
        (locked ml2 = 1 \<and> refuse w (Unlink lo) = None \<and> never_created lo w
             \<longrightarrow> fs w' lo = None)"
    by simp
  then have x: "\<exists>ml0 w0. failed_at fuel lo li ml w rc ml0 w0 \<and>
          lockfile ml0 = Some lo \<and> linkfile ml0 = Some li \<and>
          mnt_unlock_file (Some ml0) w0 = (mlp, w') \<and>
          (locked ml0 = 1 \<and> refuse w (Unlink lo) = None \<and> never_created lo w
             \<longrightarrow> fs w' lo = None)"
    by blast
  show ?thesis
    using neg h x g k q by (intro conjI impI) (assumption | simp)+
qed

theorem failed_lock_is_released_witness:
  "(case mnt_lock_file 1 (Some mtab_handle) denied_world of
      None \<Rightarrow> False
    | Some (rc, mlp, w') \<Rightarrow>
        rc = - 13 \<and> mlp = Some mtab_handle \<and> fs w' = fs denied_world \<and>
        fs w' ''/etc/mtab~'' = None \<and> fs w' ''/etc/mtab~.4711'' = None \<and>
        fd_lookup w' = fd_lookup denied_world)
   \<and> (case mnt_lock_file 1 (Some mtab_handle) stale_world of
        None \<Rightarrow> False
      | Some (rc, mlp, w') \<Rightarrow>
          rc = - 110 \<and> mlp = Some mtab_handle \<and> fs w' = fs stale_world \<and>
          fs w' ''/etc/mtab~.4711'' = None \<and>
          fs w' ''/etc/mtab~'' = Some \<lparr>st_dev = 8, st_ino = 2\<rparr> \<and>
          fd_lookup w' = fd_lookup stale_world)"
proof -
  have h: "lockfile mtab_handle = Some ''/etc/mtab~''"
    "linkfile mtab_handle = Some ''/etc/mtab~.4711''"
    "lockfile_fd mtab_handle = - 1" "locked mtab_handle = 0"
    "mtab_handle\<lparr>locked := 0, lockfile_fd := - 1\<rparr> = mtab_handle"
    by (simp_all add: mtab_handle_eq)
  have "map_option fst (mnt_lock_file 1 (Some mtab_handle) denied_world) = Some (- 13)"
    by (simp add: mtab_handle_eq denied_world_def mtab_world_def run_defs cong: run_congs)
  then obtain mlp w' where
    r: "mnt_lock_file 1 (Some mtab_handle) denied_world = Some (- 13, mlp, w')"
    by (cases "mnt_lock_file 1 (Some mtab_handle) denied_world") auto
  have q: "undisturbed denied_world" "''/etc/mtab~'' \<noteq> ''/etc/mtab~.4711''"
    "fs denied_world ''/etc/mtab~.4711'' = None" "fs denied_world ''/etc/mtab~'' = None"
    "refuse denied_world (Stat ''/etc/mtab~'') = None"
    "refuse denied_world (Stat ''/etc/mtab~.4711'') = None"
    "refuse denied_world (Unlink ''/etc/mtab~'') = None"
    "refuse denied_world (Unlink ''/etc/mtab~.4711'') = None"
    "never_created ''/etc/mtab~.4711'' denied_world"
    by (simp_all add: denied_world_def mtab_world_def undisturbed_def never_created_def)
  from failed_lock_is_released [OF r _ h(1,2)] h q r
  have one: "case mnt_lock_file 1 (Some mtab_handle) denied_world of
      None \<Rightarrow> False
    | Some (rc, mlp, w') \<Rightarrow>
        rc = - 13 \<and> mlp = Some mtab_handle \<and> fs w' = fs denied_world \<and>
        fs w' ''/etc/mtab~'' = None \<and> fs w' ''/etc/mtab~.4711'' = None \<and>
        fd_lookup w' = fd_lookup denied_world"
    by simp
  have "map_option fst (mnt_lock_file 1 (Some mtab_handle) stale_world) = Some (- 110)"
    by (simp add: mtab_handle_eq stale_world_def mtab_world_def run_defs cong: run_congs)
  then obtain mlp' w'' where
    s: "mnt_lock_file 1 (Some mtab_handle) stale_world = Some (- 110, mlp', w'')"
    by (cases "mnt_lock_file 1 (Some mtab_handle) stale_world") auto
  have t: "undisturbed stale_world" "''/etc/mtab~'' \<noteq> ''/etc/mtab~.4711''"
    "fs stale_world ''/etc/mtab~.4711'' = None"
    "fs stale_world ''/etc/mtab~'' = Some \<lparr>st_dev = 8, st_ino = 2\<rparr>"
    "mount stale_world ''/etc/mtab~.4711'' = 8" "next_ino stale_world = 3"
    "refuse stale_world (Stat ''/etc/mtab~'') = None"
    "refuse stale_world (Stat ''/etc/mtab~.4711'') = None"
    "refuse stale_world (Unlink ''/etc/mtab~'') = None"
    "refuse stale_world (Unlink ''/etc/mtab~.4711'') = None"
    "never_created ''/etc/mtab~.4711'' stale_world"
    by (simp_all add: stale_world_def mtab_world_def undisturbed_def never_created_def idle_def)
  from failed_lock_is_released [OF s _ h(1,2)] h t s
  have two: "case mnt_lock_file 1 (Some mtab_handle) stale_world of
        None \<Rightarrow> False
      | Some (rc, mlp, w') \<Rightarrow>
          rc = - 110 \<and> mlp = Some mtab_handle \<and> fs w' = fs stale_world \<and>
          fs w' ''/etc/mtab~.4711'' = None \<and>
          fs w' ''/etc/mtab~'' = Some \<lparr>st_dev = 8, st_ino = 2\<rparr> \<and>
          fd_lookup w' = fd_lookup stale_world"
    by simp
  from one two show ?thesis by (rule conjI)
qed

section \<open>More about the model\<close>

subsection \<open>The decimal form of the id\<close>

lemma below_ten:
  "d < 10 \<Longrightarrow> d \<in> {0, 1, 2, 3, 4, 5, 6, 7, 8, 9 :: nat}"
  by auto

lemma digit_of_digit: "d < 10 \<Longrightarrow> digit_of (''0123456789'' ! d) = d"
  by (drule below_ten) (auto simp: digit_of_def)

lemma digit_not_minus: "d < 10 \<Longrightarrow> ''0123456789'' ! d \<noteq> CHR ''-''"
  by (drule below_ten) auto

lemma read_nat_snoc: "read_nat (s @ [c]) = 10 * read_nat s + digit_of c"
  by (simp add: read_nat_def)

lemma read_show_nat: "read_nat (show_nat n) = n"
proof (induction n rule: show_nat.induct)
  case (1 n)
  show ?case
  proof (cases "n < 10")
    case True
    then show ?thesis
      by (subst show_nat.simps) (simp add: read_nat_def digit_of_digit)
  next
    case False
    with 1 have "read_nat (show_nat (n div 10)) = n div 10" by simp
    with False show ?thesis
      by (subst show_nat.simps) (simp add: read_nat_snoc digit_of_digit)
  qed
qed

lemma show_nat_first: "show_nat n \<noteq> [] \<and> hd (show_nat n) \<noteq> CHR ''-''"
proof (induction n rule: show_nat.induct)
  case (1 n)
  show ?case
  proof (cases "n < 10")
    case True
    then show ?thesis
      by (subst (1 2) show_nat.simps) (simp add: digit_not_minus)
  next
    case False
    with 1 have "show_nat (n div 10) \<noteq> [] \<and> hd (show_nat (n div 10)) \<noteq> CHR ''-''" by simp
    with False show ?thesis
      by (subst (1 2) show_nat.simps) simp
  qed
qed

lemma show_nat_inj: "show_nat a = show_nat b \<Longrightarrow> a = b"
  by (metis read_show_nat)

text \<open>Two ids have the same decimal form only if they are the same id.\<close>

lemma show_int_inj: "show_int a = show_int b \<Longrightarrow> a = b"
proof -
  assume e: "show_int a = show_int b"
  have neg: "hd (show_int i) = CHR ''-'' \<longleftrightarrow> i < 0" for i
    using show_nat_first [of "nat i"] by (simp add: show_int_def)
  from e neg [of a] neg [of b] have s: "a < 0 \<longleftrightarrow> b < 0" by simp
  show ?thesis
  proof (cases "a < 0")
    case True
    with s e have "show_nat (nat (- a)) = show_nat (nat (- b))" by (simp add: show_int_def)
    then have "nat (- a) = nat (- b)" by (rule show_nat_inj)
    with True s show ?thesis by simp
  next
    case False
    with s e have "show_nat (nat a) = show_nat (nat b)" by (simp add: show_int_def)
    then have "nat a = nat b" by (rule show_nat_inj)
    with False s show ?thesis by simp
  qed
qed

text \<open>
  So the handlers of one data file with two ids have two link files, and a handler's link
  file is never its lock file.
\<close>

lemma link_paths_differ:
  "a \<noteq> b \<Longrightarrow> linkfile (handle_for p a) \<noteq> linkfile (handle_for p b)"
  "linkfile (handle_for p a) \<noteq> lockfile (handle_for p a)"
  by (auto simp: handle_for_def dest: show_int_inj)

subsection \<open>The fuel\<close>

text \<open>
  The fuel only bounds the passes: what the loop returns with some fuel it returns with
  any more.
\<close>

lemma lock_loop_more_fuel:
  "lock_loop n lo li mt ml w = Some r \<Longrightarrow> lock_loop (n + k) lo li mt ml w = Some r"
proof (induction n arbitrary: ml w)
  case 0
  then show ?case by (cases k) (simp_all split: if_splits)
next
  case (Suc n)
  show ?case
  proof (cases "locked ml = 0")
    case False
    with Suc.prems show ?thesis by simp
  next
    case True
    obtain fl ml1 w1 where it: "lock_iter lo li mt ml w = (fl, ml1, w1)"
      by (cases "lock_iter lo li mt ml w")
    show ?thesis
    proof (cases fl)
      case Again
      with Suc.prems True it have "lock_loop n lo li mt ml1 w1 = Some r" by simp
      from Suc.IH [OF this] True it Again show ?thesis by simp
    next
      case Break
      with Suc.prems True it show ?thesis by simp
    next
      case (Failed rc)
      with Suc.prems True it show ?thesis by simp
    qed
  qed
qed

lemma mnt_lock_file_more_fuel:
  assumes "mnt_lock_file n mlp w = Some r"
  shows "mnt_lock_file (n + k) mlp w = Some r"
proof (cases mlp)
  case None
  with assms show ?thesis by (simp add: mnt_lock_file_def)
next
  case (Some ml)
  show ?thesis
  proof (cases "locked ml = 0 \<and> lockfile ml \<noteq> None \<and> linkfile ml \<noteq> None")
    case False
    with assms Some show ?thesis
      by (auto simp: mnt_lock_file_def mnt_lock_get_lockfile_def mnt_lock_get_linkfile_def
          split: option.splits)
  next
    case True
    then obtain lo li where p: "locked ml = 0" "lockfile ml = Some lo" "linkfile ml = Some li"
      by auto
    obtain c w2 where c: "create_linkfile li w = (c, w2)" by (cases "create_linkfile li w")
    show ?thesis
    proof (cases c)
      case (Inl e)
      with assms Some p c show ?thesis by (simp add: mnt_lock_file_unfold)
    next
      case (Inr u)
      with assms Some p c obtain x where
        l: "lock_loop n lo li (gettimeofday w2 + MOUNTLOCK_MAXTIME) ml w2 = Some x"
        by (auto simp: mnt_lock_file_unfold split: option.splits)
      from lock_loop_more_fuel [OF l, of k] l assms Some p c Inr show ?thesis
        by (simp add: mnt_lock_file_unfold)
    qed
  qed
qed

subsection \<open>An acquire without contention\<close>

text \<open>
  On the quiet system the first pass makes the link: \<^verbatim>\<open>mnt_lock_file\<close> returns 0,
  the handler holds the lock and the descriptor 0, the lock file is the file that was
  created as the link file, and the link file is gone.
\<close>

lemma uncontended_acquire:
  "map_option fst (mnt_lock_file 1 (Some mtab_handle) mtab_world) = Some 0"
  "map_option (fst \<circ> snd) (mnt_lock_file 1 (Some mtab_handle) mtab_world)
     = Some (Some (mtab_handle\<lparr>lockfile_fd := 0, locked := 1\<rparr>))"
  "map_option (\<lambda>r. fs (snd (snd r)) ''/etc/mtab~'') (mnt_lock_file 1 (Some mtab_handle) mtab_world)
     = Some (Some \<lparr>st_dev = 8, st_ino = 2\<rparr>)"
  "map_option (\<lambda>r. fs (snd (snd r)) ''/etc/mtab~.4711'')
     (mnt_lock_file 1 (Some mtab_handle) mtab_world) = Some None"
  by (simp_all add: mtab_world_def mtab_handle_eq run_defs cong: run_congs)

end
